theory Spec2Isabelle
  imports Complex_Main "HOL-Library.Word" "HOL-Library.Signed_Division"
begin

section \<open>hdr\_dbl\_histogram.c: the double-valued histogram\<close>

text \<open>
  The file \<^verbatim>\<open>src/hdr_dbl_histogram.c\<close> is embedded function by function.

  \<^item> \<^verbatim>\<open>int64_t\<close> and \<^verbatim>\<open>int32_t\<close> data (the range ratio, the significant figures, counts,
    the accumulator of \<^verbatim>\<open>power\<close>) are words; comparisons read them signed (\<open>sint\<close>, \<open><s\<close>),
    arithmetic wraps.
  \<^item> Shift amounts and bit positions (C \<^verbatim>\<open>int\<close> and \<^verbatim>\<open>int32_t\<close> values between 0 and 64)
    are \<open>int\<close>.
  \<^item> A \<^verbatim>\<open>double\<close> is a \<open>real\<close>. Products and quotients by powers of two (the shift
    multipliers, the internal ratio, the half count of sub-buckets) are exact in IEEE-754
    binary64 and are the exact operations of \<open>real\<close>. The operations of the range
    adjustment that round are not computed exactly: the quotient of two arbitrary doubles,
    the subtraction that follows \<^verbatim>\<open>ceil\<close>, the conversion of the 64-bit ratio to
    \<^verbatim>\<open>double\<close> and \<^verbatim>\<open>log\<close> are operations of the record \<open>E\<close> below, of which the theorems
    assume only what \<open>binary64_arithmetic\<close> lists. Infinities and NaN are outside the model.
  \<^item> The integer histogram engine (\<^verbatim>\<open>hdr_histogram.c\<close>), \<^verbatim>\<open>malloc\<close> and \<^verbatim>\<open>nextafter\<close> are not
    part of the file. They are a parameter of every function that calls them: the same
    record \<open>E\<close> of operations, each returning its result together with the engine state
    it leaves behind.
\<close>

type_synonym int64_t = "64 word"
type_synonym int32_t = "32 word"

subsection \<open>Conversions between integers and doubles\<close>

definition int64_to_double :: "int64_t \<Rightarrow> real" where
  "int64_to_double w = real_of_int (sint w)"

definition int32_to_double :: "int32_t \<Rightarrow> real" where
  "int32_to_double w = real_of_int (sint w)"

text \<open>A C cast from double to an integer type discards the fraction (rounds towards zero).\<close>

definition c_trunc :: "real \<Rightarrow> int" where
  "c_trunc x = (if 0 \<le> x then \<lfloor>x\<rfloor> else \<lceil>x\<rceil>)"

definition double_to_int64 :: "real \<Rightarrow> int64_t" where
  "double_to_int64 x = word_of_int (c_trunc x)"

definition double_to_int32 :: "real \<Rightarrow> int32_t" where
  "double_to_int32 x = word_of_int (c_trunc x)"

text \<open>\<^verbatim>\<open>ceil\<close>, \<^verbatim>\<open>pow\<close> (only ever called with base 2 or 10) and \<^verbatim>\<open>log\<close> (natural logarithm,
  \<open>ln\<close>) of \<^verbatim>\<open>math.h\<close>.\<close>

definition ceil :: "real \<Rightarrow> real" where
  "ceil x = real_of_int \<lceil>x\<rceil>"

definition pow :: "real \<Rightarrow> real \<Rightarrow> real" where
  "pow x y = x powr y"

subsection \<open>The data\<close>

text \<open>Of \<^verbatim>\<open>struct hdr_histogram_bucket_config\<close> and \<^verbatim>\<open>struct hdr_histogram\<close> (declared in
  headers outside the file) only the fields this file reads or writes are named; the rest
  of the engine's state is the opaque component \<open>engine_state\<close>.\<close>

record hdr_histogram_bucket_config =
  sub_bucket_half_count :: int32_t
  counts_len :: int32_t

record 'c hdr_histogram =
  total_count :: int64_t
  conversion_ratio :: real
  engine_state :: 'c

text \<open>\<^verbatim>\<open>struct hdr_dbl_histogram\<close>; the field \<^verbatim>\<open>values\<close> is \<open>values_h\<close> here.\<close>

record 'c hdr_dbl_histogram =
  highest_to_lowest_value_ratio :: int64_t
  current_lowest_value :: real
  current_highest_value :: real
  int_to_dbl_conversion_ratio :: real
  dbl_to_int_conversion_ratio :: real
  values_h :: "'c hdr_histogram"

text \<open>The operations the file calls but does not define. An engine operation that returns
  \<^verbatim>\<open>bool\<close> and may change the histogram returns the pair of both. The last four are the
  rounding operations of binary64 and of \<^verbatim>\<open>math.h\<close> that the range adjustment uses: the
  conversion of an \<^verbatim>\<open>int64_t\<close> to \<^verbatim>\<open>double\<close> (inexact above \<open>2 ^ 53\<close>), the division and the
  subtraction of doubles, and \<^verbatim>\<open>log\<close>.\<close>

record 'c externals =
  hdr_calculate_bucket_config ::
    "int64_t \<Rightarrow> int64_t \<Rightarrow> int32_t \<Rightarrow> int \<times> hdr_histogram_bucket_config"
  malloc :: "64 word \<Rightarrow> bool"
  sizeof_hdr_dbl_histogram :: "64 word"
  hdr_init_preallocated :: "hdr_histogram_bucket_config \<Rightarrow> 'c hdr_histogram"
  hdr_count_at_index :: "'c hdr_histogram \<Rightarrow> int \<Rightarrow> int64_t"
  hdr_shift_values_left :: "'c hdr_histogram \<Rightarrow> int \<Rightarrow> bool \<times> 'c hdr_histogram"
  hdr_shift_values_right :: "'c hdr_histogram \<Rightarrow> int \<Rightarrow> bool \<times> 'c hdr_histogram"
  hdr_record_value :: "'c hdr_histogram \<Rightarrow> int64_t \<Rightarrow> bool \<times> 'c hdr_histogram"
  nextafter_DBL_MAX :: "real \<Rightarrow> real"
  fp_of_int64 :: "int64_t \<Rightarrow> real"
  fp_div :: "real \<Rightarrow> real \<Rightarrow> real"
  fp_sub :: "real \<Rightarrow> real \<Rightarrow> real"
  libm_log :: "real \<Rightarrow> real"

definition EINVAL :: int where
  "EINVAL = 22"

definition ENOMEM :: int where
  "ENOMEM = 12"

definition HIGHEST_VALUE_EVA :: real where
  "HIGHEST_VALUE_EVA = 449423283715579 * 10 ^ 293"

subsection \<open>Utility functions\<close>

text \<open>\<^verbatim>\<open>power\<close> (here \<open>power_c\<close>): the accumulator is declared \<^verbatim>\<open>int\<close>, so every product is computed in 64 bits
  (\<^verbatim>\<open>result\<close> is promoted to the type of \<^verbatim>\<open>base\<close>) and stored back in 32 bits. The loop runs
  until \<^verbatim>\<open>exp\<close> is zero.\<close>

function power_loop :: "32 word \<Rightarrow> int64_t \<Rightarrow> int64_t \<Rightarrow> 32 word" where
  "power_loop result base exp' =
     (if exp' = 0 then result
      else power_loop (ucast (scast result * base :: int64_t)) base (exp' - 1))"
  by pat_completeness auto
termination
  by (relation "measure (\<lambda>(result, base, exp'). unat exp')")
    (auto simp: unat_minus_one unat_gt_0)

declare power_loop.simps [simp del]

definition power_c :: "int64_t \<Rightarrow> int64_t \<Rightarrow> int64_t" where
  "power_c base exp' = scast (power_loop 1 base exp')"

definition number_of_sub_buckets :: "int32_t \<Rightarrow> int32_t" where
  "number_of_sub_buckets significant_figures =
     (let largest_value_with_single_unit_resolution =
            2 * double_to_int64 (pow 10 (int32_to_double significant_figures));
          sub_bucket_count_magnitude =
            double_to_int32
              (ceil (ln (int64_to_double largest_value_with_single_unit_resolution / ln 2)))
      in double_to_int32 (pow 2 (int32_to_double sub_bucket_count_magnitude)))"

text \<open>\<^verbatim>\<open>__builtin_clzll\<close>: the number of zero bits above the most significant one bit,
  scanning from bit 63 down. C leaves the result for 0 undefined; the scan gives 64.\<close>

fun clz_below :: "nat \<Rightarrow> 64 word \<Rightarrow> nat" where
  "clz_below 0 w = 0"
| "clz_below (Suc n) w = (if bit w n then 0 else Suc (clz_below n w))"

definition clzll :: "64 word \<Rightarrow> nat" where
  "clzll w = clz_below 64 w"

definition find_containing_binary_order_of_magnitude :: "int64_t \<Rightarrow> int" where
  "find_containing_binary_order_of_magnitude v = 64 - int (clzll v)"

text \<open>\<^verbatim>\<open>INT64_C(1) << n\<close>. C defines it for \<open>0 \<le> n < 63\<close> (\<open>shift_defined\<close>); \<open>push_bit\<close> gives
  the sign bit at 63 and 0 from 64 on.\<close>

definition shl1 :: "int \<Rightarrow> int64_t" where
  "shl1 n = push_bit (nat n) 1"

definition shift_defined :: "int \<Rightarrow> bool" where
  "shift_defined n \<longleftrightarrow> 0 \<le> n \<and> n < 63"

definition calculate_internal_highest_to_lowest_value_ratio :: "int64_t \<Rightarrow> int64_t" where
  "calculate_internal_highest_to_lowest_value_ratio external_highest_to_lowest_value_ratio =
     shl1 (find_containing_binary_order_of_magnitude external_highest_to_lowest_value_ratio + 1)"

definition calculate_integer_value_range :: "int64_t \<Rightarrow> int32_t \<Rightarrow> int64_t" where
  "calculate_integer_value_range external_highest_to_lowest_value_ratio significant_figures =
     (let internal_highest_to_lowest_value_ratio =
            calculate_internal_highest_to_lowest_value_ratio external_highest_to_lowest_value_ratio;
          lowest_tracking_integer_value =
            (word_of_int (sint (number_of_sub_buckets significant_figures) sdiv 2) :: int64_t)
      in lowest_tracking_integer_value * internal_highest_to_lowest_value_ratio)"

text \<open>The expression \<^verbatim>\<open>log(h->highest_to_lowest_value_ratio) / log(2)\<close> of
  \<^verbatim>\<open>find_capped_containing_binary_order_of_magnitude\<close>, as binary64 computes it: the ratio
  converted to \<^verbatim>\<open>double\<close>, two calls of \<^verbatim>\<open>log\<close>, one rounded division.\<close>

definition log2_quotient :: "'c externals \<Rightarrow> int64_t \<Rightarrow> real" where
  "log2_quotient E ratio = fp_div E (libm_log E (fp_of_int64 E ratio)) (libm_log E 2)"

definition find_capped_containing_binary_order_of_magnitude ::
    "'c externals \<Rightarrow> 'c hdr_dbl_histogram \<Rightarrow> real \<Rightarrow> int" where
  "find_capped_containing_binary_order_of_magnitude E h d =
     (if d > fp_of_int64 E (highest_to_lowest_value_ratio h)
      then c_trunc (log2_quotient E (highest_to_lowest_value_ratio h))
      else if d > pow 2 50 then 50
      else find_containing_binary_order_of_magnitude (double_to_int64 d))"

text \<open>The two assignments \<^verbatim>\<open>h->current_lowest_value *= shift_multiplier\<close> and
  \<^verbatim>\<open>h->current_highest_value *= shift_multiplier\<close> that both shift functions share.\<close>

definition scale_window :: "real \<Rightarrow> 'c hdr_dbl_histogram \<Rightarrow> 'c hdr_dbl_histogram" where
  "scale_window shift_multiplier h =
     h\<lparr>current_lowest_value := current_lowest_value h * shift_multiplier,
       current_highest_value := current_highest_value h * shift_multiplier\<rparr>"

text \<open>\<^verbatim>\<open>shift_covered_range_right\<close> and \<^verbatim>\<open>shift_covered_range_left\<close>. The \<^verbatim>\<open>||\<close> of the
  condition short-circuits: the engine's shift is called only when the comparison of the
  counts is false, and then the engine state it leaves is kept whatever it answers.\<close>

definition shift_covered_range_right ::
    "'c externals \<Rightarrow> 'c hdr_dbl_histogram \<Rightarrow> int \<Rightarrow> bool \<times> 'c hdr_dbl_histogram" where
  "shift_covered_range_right E h shift =
     (let shift_multiplier = 1 / int64_to_double (shl1 shift) in
      if hdr_count_at_index E (values_h h) 0 <s total_count (values_h h)
      then (True, scale_window shift_multiplier h)
      else let r = hdr_shift_values_left E (values_h h) shift;
               h1 = h\<lparr>values_h := snd r\<rparr>
           in if fst r then (True, scale_window shift_multiplier h1) else (False, h1))"

definition shift_covered_range_left ::
    "'c externals \<Rightarrow> 'c hdr_dbl_histogram \<Rightarrow> int \<Rightarrow> bool \<times> 'c hdr_dbl_histogram" where
  "shift_covered_range_left E h shift =
     (let shift_multiplier = 1 * int64_to_double (shl1 shift) in
      if hdr_count_at_index E (values_h h) 0 <s total_count (values_h h)
      then (True, scale_window shift_multiplier h)
      else let r = hdr_shift_values_right E (values_h h) shift;
               h1 = h\<lparr>values_h := snd r\<rparr>
           in if fst r then (True, scale_window shift_multiplier h1) else (False, h1))"

subsection \<open>The range adjustment\<close>

text \<open>The two \<^verbatim>\<open>do ... while\<close> loops of \<^verbatim>\<open>adjust_range_for_value\<close>. Nothing in their text bounds
  the number of rounds, so each is a partial function: \<open>None\<close> is a loop that never
  exits.\<close>

partial_function (option) lower_loop ::
    "'c externals \<Rightarrow> 'c hdr_dbl_histogram \<Rightarrow> real \<Rightarrow> (bool \<times> 'c hdr_dbl_histogram) option" where
  "lower_loop E h v =
     (let r_val = fp_sub E (ceil (fp_div E (current_lowest_value h) v)) 1;
          shift_amount = find_capped_containing_binary_order_of_magnitude E h r_val;
          r = shift_covered_range_right E h shift_amount
      in if \<not> fst r then Some (False, snd r)
         else if v < current_lowest_value (snd r) then lower_loop E (snd r) v
         else Some (True, snd r))"

partial_function (option) upper_loop ::
    "'c externals \<Rightarrow> 'c hdr_dbl_histogram \<Rightarrow> real \<Rightarrow> (bool \<times> 'c hdr_dbl_histogram) option" where
  "upper_loop E h v =
     (let r_val = fp_sub E (ceil (fp_div E (nextafter_DBL_MAX E v) (current_highest_value h))) 1;
          shift_amount = find_capped_containing_binary_order_of_magnitude E h r_val;
          r = shift_covered_range_left E h shift_amount
      in if \<not> fst r then Some (False, snd r)
         else if v \<ge> current_highest_value (snd r) then upper_loop E (snd r) v
         else Some (True, snd r))"

definition adjust_range_for_value ::
    "'c externals \<Rightarrow> 'c hdr_dbl_histogram \<Rightarrow> real \<Rightarrow> (bool \<times> 'c hdr_dbl_histogram) option" where
  "adjust_range_for_value E h v =
     (if 0 = v then Some (True, h)
      else if v < current_lowest_value h then
        (if v < 0 then Some (False, h) else lower_loop E h v)
      else if v \<ge> current_highest_value h then
        (if v > HIGHEST_VALUE_EVA then Some (False, h) else upper_loop E h v)
      else Some (True, h))"

subsection \<open>Construction and recording\<close>

text \<open>The three parameter checks that open \<^verbatim>\<open>hdr_dbl_init\<close>: the error code returned, or
  \<open>None\<close> when the function goes on.\<close>

definition hdr_dbl_init_checks :: "int64_t \<Rightarrow> int32_t \<Rightarrow> int option" where
  "hdr_dbl_init_checks highest_to_lowest_value_ratio' significant_figures =
     (if highest_to_lowest_value_ratio' <s 2 then Some EINVAL
      else if significant_figures <s 1 then Some EINVAL
      else if \<not> (highest_to_lowest_value_ratio' * power_c 10 (scast significant_figures)
                  <s shl1 61)
      then Some EINVAL
      else None)"

text \<open>\<^verbatim>\<open>hdr_dbl_init\<close>. The result is \<open>None\<close> when the call leaves defined behaviour: past the
  checks the function evaluates \<^verbatim>\<open>INT64_C(1) << (order + 1)\<close> (in
  \<^verbatim>\<open>calculate_integer_value_range\<close>, and again for the upper bound), which C leaves
  undefined when the amount reaches 63, that is for a ratio of \<open>2 ^ 61\<close> or more; no
  histogram can be said to result. All other integer arithmetic of the function wraps,
  which admits more calls as returning, not fewer.\<close>

definition hdr_dbl_init ::
    "'c externals \<Rightarrow> int64_t \<Rightarrow> int32_t \<Rightarrow> (int + 'c hdr_dbl_histogram) option" where
  "hdr_dbl_init E highest_to_lowest_value_ratio' significant_figures =
     (case hdr_dbl_init_checks highest_to_lowest_value_ratio' significant_figures of
        Some e \<Rightarrow> Some (Inl e)
      | None \<Rightarrow>
         if \<not> shift_defined
                (find_containing_binary_order_of_magnitude highest_to_lowest_value_ratio' + 1)
         then None
         else
         (let integer_value_range =
                calculate_integer_value_range highest_to_lowest_value_ratio' significant_figures;
              (rc, cfg) =
                hdr_calculate_bucket_config E 1 (integer_value_range - 1) significant_figures
          in if 0 \<noteq> rc then Some (Inl rc)
             else
               let histogram_size = sizeof_hdr_dbl_histogram E + scast (counts_len cfg) * 8
               in if \<not> malloc E histogram_size then Some (Inl ENOMEM)
                  else
                    let internal_highest_to_lowest_value_ratio =
                          calculate_internal_highest_to_lowest_value_ratio
                            highest_to_lowest_value_ratio';
                        lowest = pow 2 800;
                        int_to_dbl = lowest / int32_to_double (sub_bucket_half_count cfg)
                    in Some (Inr
                         \<lparr>highest_to_lowest_value_ratio = highest_to_lowest_value_ratio',
                          current_lowest_value = lowest,
                          current_highest_value =
                            lowest * int64_to_double internal_highest_to_lowest_value_ratio,
                          int_to_dbl_conversion_ratio = int_to_dbl,
                          dbl_to_int_conversion_ratio = 1 / int_to_dbl,
                          values_h =
                            (hdr_init_preallocated E cfg)\<lparr>conversion_ratio := int_to_dbl\<rparr>\<rparr>)))"

text \<open>\<^verbatim>\<open>hdr_dbl_record_value\<close>. Its last three statements, reached with or without an
  adjustment, are \<open>record_converted\<close>: the conversion to \<^verbatim>\<open>int64_t\<close>, the call of the engine's
  \<^verbatim>\<open>hdr_record_value\<close>, whose answer the C statement drops while the engine state it leaves
  is kept, and \<^verbatim>\<open>return true\<close>.\<close>

definition record_converted ::
    "'c externals \<Rightarrow> 'c hdr_dbl_histogram \<Rightarrow> real \<Rightarrow> bool \<times> 'c hdr_dbl_histogram" where
  "record_converted E h v =
     (let int_value = double_to_int64 (v * dbl_to_int_conversion_ratio h)
      in (True, h\<lparr>values_h := snd (hdr_record_value E (values_h h) int_value)\<rparr>))"

definition hdr_dbl_record_value ::
    "'c externals \<Rightarrow> 'c hdr_dbl_histogram \<Rightarrow> real \<Rightarrow> (bool \<times> 'c hdr_dbl_histogram) option" where
  "hdr_dbl_record_value E h v =
     (if v < current_lowest_value h \<or> current_highest_value h \<le> v then
        (case adjust_range_for_value E h v of
           None \<Rightarrow> None
         | Some r \<Rightarrow> if \<not> fst r then Some (False, snd r) else Some (record_converted E (snd r) v))
      else Some (record_converted E h v))"

section \<open>Properties to be checked\<close>

subsection \<open>Invariants of the window\<close>

text \<open>The relation between the two bounds of the window: the upper bound is the lower
  bound times the internal ratio derived from the stored (requested) ratio.\<close>

definition window_invariant :: "'c hdr_dbl_histogram \<Rightarrow> bool" where
  "window_invariant h \<longleftrightarrow>
     current_highest_value h =
       current_lowest_value h *
         int64_to_double
           (calculate_internal_highest_to_lowest_value_ratio (highest_to_lowest_value_ratio h))"

text \<open>The states that construction produces and that recording keeps: a requested ratio of
  at least 2 whose internal ratio fits \<^verbatim>\<open>int64_t\<close>, and a positive window.\<close>

definition well_formed :: "'c hdr_dbl_histogram \<Rightarrow> bool" where
  "well_formed h \<longleftrightarrow>
     2 \<le> sint (highest_to_lowest_value_ratio h) \<and>
     sint (highest_to_lowest_value_ratio h) < 2 ^ 61 \<and>
     0 < current_lowest_value h \<and>
     window_invariant h"

text \<open>What the theorems assume of the rounding operations and of \<^verbatim>\<open>nextafter\<close>. Each line
  is a fact of IEEE-754 binary64 on the doubles the code passes (it is stated for all reals
  only because a \<^verbatim>\<open>double\<close> is a \<open>real\<close> here):
  the conversion of an integer is exact up to \<open>2 ^ 53\<close> and monotone above;
  a quotient of two positive doubles with the greater on top rounds to more than 1 (two
  distinct doubles differ by more than half a unit in the last place of 1);
  subtracting 1 from 2 or more leaves at least 1;
  the computed \<^verbatim>\<open>log(ratio) / log(2)\<close> is at least 1 for a ratio of 2 or more (it is exactly 1
  at 2) and less than 1 away from the true logarithm;
  \<^verbatim>\<open>nextafter(x, DBL_MAX)\<close> is above \<open>x\<close> for the \<open>x\<close> the upper loop is entered with, none above
  \<^verbatim>\<open>HIGHEST_VALUE_EVA\<close>.\<close>

definition binary64_arithmetic :: "'c externals \<Rightarrow> bool" where
  "binary64_arithmetic E \<longleftrightarrow>
     (\<forall>w. - (2 ^ 53) \<le> sint w \<and> sint w \<le> 2 ^ 53 \<longrightarrow> fp_of_int64 E w = real_of_int (sint w)) \<and>
     (\<forall>w. 2 ^ 53 \<le> sint w \<longrightarrow> 2 ^ 53 \<le> fp_of_int64 E w) \<and>
     (\<forall>x y. 0 < y \<and> y < x \<longrightarrow> 1 < fp_div E x y) \<and>
     (\<forall>x. 2 \<le> x \<longrightarrow> 1 \<le> fp_sub E x 1) \<and>
     (\<forall>w. 2 \<le> sint w \<longrightarrow>
        1 \<le> log2_quotient E w \<and>
        \<bar>log2_quotient E w - log 2 (real_of_int (sint w))\<bar> < 1) \<and>
     (\<forall>x. x \<le> HIGHEST_VALUE_EVA \<longrightarrow> x < nextafter_DBL_MAX E x)"

text \<open>The histograms a caller can hold: what \<^verbatim>\<open>hdr_dbl_init\<close> returned for the parameters
  \<open>ratio\<close> and \<open>significant_figures\<close>, after any number of calls of
  \<^verbatim>\<open>hdr_dbl_record_value\<close> that returned (with either answer).\<close>

inductive reachable ::
    "'c externals \<Rightarrow> int64_t \<Rightarrow> int32_t \<Rightarrow> 'c hdr_dbl_histogram \<Rightarrow> bool"
  for E ratio significant_figures where
  constructed:
    "hdr_dbl_init E ratio significant_figures = Some (Inr h)
       \<Longrightarrow> reachable E ratio significant_figures h"
| recorded:
    "reachable E ratio significant_figures h \<Longrightarrow> hdr_dbl_record_value E h v = Some (b, h')
       \<Longrightarrow> reachable E ratio significant_figures h'"

text \<open>The documented bounds on the parameters of construction, over the mathematical
  integers.\<close>

definition documented_bounds :: "int64_t \<Rightarrow> int32_t \<Rightarrow> bool" where
  "documented_bounds ratio significant_figures \<longleftrightarrow>
     2 \<le> sint ratio \<and> 1 \<le> sint significant_figures \<and>
     sint ratio * 10 ^ nat (sint significant_figures) < 2 ^ 61"

subsection \<open>The derived quantities as the specification words them\<close>

text \<open>The internal ratio as the specification has it: \<open>2 ^ (\<lfloor>log\<^sub>2 ratio\<rfloor> + 1)\<close>, the smallest
  power of two strictly greater than the ratio.\<close>

definition spec_internal_highest_to_lowest_value_ratio :: "int \<Rightarrow> int" where
  "spec_internal_highest_to_lowest_value_ratio r = 2 ^ nat (\<lfloor>log 2 (real_of_int r)\<rfloor> + 1)"

text \<open>The sub-bucket count as the specification has it: 2 to the ceiling of the base-2
  logarithm of \<open>2 * 10 ^ significant_figures\<close>.\<close>

definition spec_sub_bucket_count :: "nat \<Rightarrow> int" where
  "spec_sub_bucket_count significant_figures =
     2 ^ nat \<lceil>log 2 (2 * 10 ^ significant_figures)\<rceil>"

text \<open>The capped order of magnitude as the specification has it: the cap is the internal
  ratio and the value returned above the cap is that ratio's binary exponent.\<close>

definition spec_capped_binary_order_of_magnitude :: "'c hdr_dbl_histogram \<Rightarrow> real \<Rightarrow> int" where
  "spec_capped_binary_order_of_magnitude h d =
     (let internal =
            int64_to_double
              (calculate_internal_highest_to_lowest_value_ratio (highest_to_lowest_value_ratio h))
      in if d > internal then \<lfloor>log 2 internal\<rfloor>
         else if d > 2 ^ 50 then 50
         else find_containing_binary_order_of_magnitude (double_to_int64 d))"

subsection \<open>A stand-in for the engine\<close>

text \<open>Concrete externals for instantiating the theorems: an engine of one visible bucket
  (its \<open>engine_state\<close> is the count at index 0) whose shifts answer \<open>shift_ok\<close> and whose
  recording answers \<open>record_ok\<close>; an allocation that succeeds; a \<^verbatim>\<open>nextafter\<close> that adds one
  unit in the last place of a power of two (and gives the least subnormal at 0); exact
  conversion, division, subtraction and logarithm, with which binary64 agrees at the
  inputs where the theorems below use them (small integers and powers of two).\<close>

definition test_externals :: "bool \<Rightarrow> bool \<Rightarrow> int64_t externals" where
  "test_externals shift_ok record_ok =
     \<lparr>hdr_calculate_bucket_config =
        (\<lambda>lowest highest sf. (0, \<lparr>sub_bucket_half_count = 1024, counts_len = 2048\<rparr>)),
      malloc = (\<lambda>size. True),
      sizeof_hdr_dbl_histogram = 128,
      hdr_init_preallocated =
        (\<lambda>cfg. \<lparr>total_count = 0, conversion_ratio = 0, engine_state = 0\<rparr>),
      hdr_count_at_index = (\<lambda>e i. if i = 0 then engine_state e else 0),
      hdr_shift_values_left = (\<lambda>e shift. (shift_ok, e)),
      hdr_shift_values_right = (\<lambda>e shift. (shift_ok, e)),
      hdr_record_value =
        (\<lambda>e v. if record_ok
               then (True, e\<lparr>total_count := total_count e + 1,
                              engine_state := (if v = 0 then engine_state e + 1 else engine_state e)\<rparr>)
               else (False, e)),
      nextafter_DBL_MAX = (\<lambda>x. if x = 0 then 1 / 2 ^ 1074 else x + \<bar>x\<bar> / 2 ^ 52),
      fp_of_int64 = (\<lambda>w. real_of_int (sint w)),
      fp_div = (\<lambda>x y. x / y),
      fp_sub = (\<lambda>x y. x - y),
      libm_log = ln\<rparr>"

text \<open>The histogram that construction with ratio 2 and 3 significant figures returns over
  these externals: the window is \<open>[2 ^ 800, 2 ^ 803)\<close>.\<close>

definition fresh_histogram :: "int64_t hdr_dbl_histogram" where
  "fresh_histogram =
     \<lparr>highest_to_lowest_value_ratio = 2,
      current_lowest_value = 2 ^ 800,
      current_highest_value = 2 ^ 803,
      int_to_dbl_conversion_ratio = 2 ^ 790,
      dbl_to_int_conversion_ratio = 1 / 2 ^ 790,
      values_h = \<lparr>total_count = 0, conversion_ratio = 2 ^ 790, engine_state = 0\<rparr>\<rparr>"

text \<open>A histogram holding one count, in a bucket other than bucket 0.\<close>

definition one_count_histogram :: "int64_t hdr_dbl_histogram" where
  "one_count_histogram =
     fresh_histogram\<lparr>values_h := \<lparr>total_count = 1, conversion_ratio = 2 ^ 790, engine_state = 0\<rparr>\<rparr>"

section \<open>Facts about the utility functions\<close>

subsection \<open>Leading zeros and the binary order of magnitude\<close>

lemma bit_uint_ge:
  assumes "bit (w :: 64 word) n"
  shows "2 ^ n \<le> uint w"
proof -
  define q where "q = uint w div 2 ^ n"
  have split: "uint w = 2 ^ n * q + uint w mod 2 ^ n" by (simp add: q_def)
  have r: "0 \<le> uint w mod 2 ^ n" by simp
  from assms have "bit (uint w) n"
    using bit_imp_le_length[of w n] by (simp add: bit_uint_iff)
  then have "odd q" by (simp add: bit_iff_odd q_def)
  moreover have "0 \<le> q" by (simp add: q_def pos_imp_zdiv_nonneg_iff)
  ultimately have "1 \<le> q" by presburger
  then have "(2::int) ^ n * 1 \<le> 2 ^ n * q" by (intro mult_left_mono) simp_all
  with split r show ?thesis by linarith
qed

lemma not_bit_uint_less:
  assumes "\<not> bit w n" "n < 64" "uint (w :: 64 word) < 2 ^ Suc n"
  shows "uint w < 2 ^ n"
proof -
  define q where "q = uint w div 2 ^ n"
  have split: "uint w = 2 ^ n * q + uint w mod 2 ^ n" by (simp add: q_def)
  have r: "0 \<le> uint w mod 2 ^ n" "uint w mod 2 ^ n < 2 ^ n" by simp_all
  from assms(1,2) have "\<not> bit (uint w) n" by (simp add: bit_uint_iff)
  then have ev: "even q" by (simp add: bit_iff_odd q_def)
  have nn: "0 \<le> q" by (simp add: q_def pos_imp_zdiv_nonneg_iff)
  have "q = 0"
  proof (rule ccontr)
    assume "q \<noteq> 0"
    with ev nn have "2 \<le> q" by presburger
    then have "(2::int) ^ n * 2 \<le> 2 ^ n * q" by (intro mult_left_mono) simp_all
    with split r(1) assms(3) show False unfolding power_Suc by linarith
  qed
  with split r show ?thesis by simp
qed

lemma clz_below_bounds:
  "w \<noteq> 0 \<Longrightarrow> n \<le> 64 \<Longrightarrow> uint w < 2 ^ n \<Longrightarrow>
     clz_below n w < n \<and> 2 ^ (n - clz_below n w - 1) \<le> uint w \<and> uint w < 2 ^ (n - clz_below n w)"
proof (induction n)
  case 0
  then have "uint w < 1" by simp
  then have "uint w = 0" using uint_ge_0[of w] by linarith
  with 0 show ?case by (simp add: uint_0_iff)
next
  case (Suc n)
  show ?case
  proof (cases "bit w n")
    case True
    then show ?thesis using Suc.prems bit_uint_ge[of w n] by simp
  next
    case False
    then have "uint w < 2 ^ n" using Suc.prems not_bit_uint_less[of w n] by simp
    from Suc.IH[OF Suc.prems(1) _ this] False Suc.prems(2) show ?thesis
      by (simp add: Suc_diff_Suc)
  qed
qed

lemma uint_less_of_sint_nonneg: "0 \<le> sint (w::64 word) \<Longrightarrow> uint w < 2 ^ 63"
proof -
  assume "0 \<le> sint w"
  then have "\<not> bit w 63" using bit_last_iff[of w] by simp
  moreover have "uint w < 2 ^ Suc 63" using uint_lt2p[of w] by simp
  ultimately show ?thesis using not_bit_uint_less[of w 63] by simp
qed

lemma sint_nonneg_uint: "0 \<le> sint (w::64 word) \<Longrightarrow> sint w = uint w"
proof -
  assume "0 \<le> sint w"
  then have "uint w < 2 ^ 63" by (rule uint_less_of_sint_nonneg)
  moreover have "- (2 ^ 63) \<le> uint w" by (rule order_trans[of _ 0]) simp_all
  ultimately show ?thesis
    by (simp add: sint_uint signed_take_bit_int_eq_self)
qed

lemma sint_shl1:
  assumes "0 \<le> n" "n \<le> 62"
  shows "sint (shl1 n) = 2 ^ nat n"
proof -
  have lt: "(2::int) ^ nat n < 2 ^ 63"
    using assms by (intro power_strict_increasing) auto
  have e: "shl1 n = word_of_int (2 ^ nat n)"
    by (simp add: shl1_def push_bit_eq_mult)
  have "uint (shl1 n) = 2 ^ nat n mod 2 ^ LENGTH(64)"
    unfolding e by (rule uint_word_of_int)
  also have "\<dots> = 2 ^ nat n"
    using lt by (simp add: mod_pos_pos_trivial)
  finally have u: "uint (shl1 n) = 2 ^ nat n" .
  have "- (2 ^ 63) \<le> (2::int) ^ nat n"
    by (rule order_trans[of _ 0]) simp_all
  with u lt show ?thesis
    by (simp add: sint_uint signed_take_bit_int_eq_self)
qed

lemma order_bounds:
  assumes "1 \<le> sint v"
  shows "1 \<le> find_containing_binary_order_of_magnitude v"
    and "find_containing_binary_order_of_magnitude v \<le> 63"
    and "2 ^ nat (find_containing_binary_order_of_magnitude v - 1) \<le> sint v"
    and "sint v < 2 ^ nat (find_containing_binary_order_of_magnitude v)"
proof -
  from assms have nz: "v \<noteq> 0" by auto
  from assms have u: "sint v = uint v" by (simp add: sint_nonneg_uint)
  from assms have "uint v < 2 ^ 64" using uint_lt2p[of v] by simp
  from clz_below_bounds[OF nz _ this]
  have c: "clzll v < 64" "2 ^ (64 - clzll v - 1) \<le> uint v" "uint v < 2 ^ (64 - clzll v)"
    by (simp_all add: clzll_def)
  have k: "nat (find_containing_binary_order_of_magnitude v) = 64 - clzll v"
    "nat (find_containing_binary_order_of_magnitude v - 1) = 64 - clzll v - 1"
    using c(1) by (simp_all add: find_containing_binary_order_of_magnitude_def)
  show "1 \<le> find_containing_binary_order_of_magnitude v"
    using c(1) by (simp add: find_containing_binary_order_of_magnitude_def)
  show "2 ^ nat (find_containing_binary_order_of_magnitude v - 1) \<le> sint v"
    using c(2) by (simp only: k u)
  show lt: "sint v < 2 ^ nat (find_containing_binary_order_of_magnitude v)"
    using c(3) by (simp only: k u)
  show "find_containing_binary_order_of_magnitude v \<le> 63"
  proof (rule ccontr)
    assume "\<not> find_containing_binary_order_of_magnitude v \<le> 63"
    then have "clzll v = 0" by (simp add: find_containing_binary_order_of_magnitude_def)
    with c(2) have "2 ^ 63 \<le> uint v" by simp
    moreover have "uint v < 2 ^ 63" using assms by (intro uint_less_of_sint_nonneg) simp
    ultimately show False by simp
  qed
qed

lemma two_powr_of_int: "0 \<le> j \<Longrightarrow> (2::real) powr real_of_int j = 2 ^ nat j"
  by (simp add: powr_real_of_int)

lemma floor_log2_order:
  assumes "1 \<le> sint v"
  shows "\<lfloor>log 2 (real_of_int (sint v))\<rfloor> = find_containing_binary_order_of_magnitude v - 1"
proof -
  let ?k = "find_containing_binary_order_of_magnitude v"
  note b = order_bounds[OF assms]
  have lo: "(2::real) powr real_of_int (?k - 1) \<le> real_of_int (sint v)"
  proof -
    have "(2::real) powr real_of_int (?k - 1) = 2 ^ nat (?k - 1)"
      using b(1) by (intro two_powr_of_int) simp
    also have "\<dots> = real_of_int (2 ^ nat (?k - 1))" by simp
    also have "\<dots> \<le> real_of_int (sint v)" using b(3) by (simp only: of_int_le_iff)
    finally show ?thesis .
  qed
  have hi: "real_of_int (sint v) < 2 powr real_of_int (?k - 1 + 1)"
  proof -
    have "real_of_int (sint v) < real_of_int (2 ^ nat ?k)"
      using b(4) by (simp only: of_int_less_iff)
    also have "\<dots> = 2 ^ nat ?k" by simp
    also have "\<dots> = (2::real) powr real_of_int (?k - 1 + 1)"
      using b(1) two_powr_of_int[of ?k] by simp
    finally show ?thesis .
  qed
  from assms have "0 < sint v" by linarith
  then have pos: "0 < real_of_int (sint v)" by (simp only: of_int_0_less_iff)
  have "1 < (2::real)" by simp
  from floor_log_eq_powr_iff[OF pos this] lo hi show ?thesis by blast
qed

lemma internal_ratio_value:
  assumes "2 \<le> sint r" "sint r < 2 ^ 61"
  shows "sint (calculate_internal_highest_to_lowest_value_ratio r) =
           2 ^ nat (find_containing_binary_order_of_magnitude r + 1)"
    and "find_containing_binary_order_of_magnitude r \<le> 61"
proof -
  let ?k = "find_containing_binary_order_of_magnitude r"
  have one: "1 \<le> sint r" using assms(1) by simp
  note b = order_bounds[OF one]
  have "(2::int) ^ nat (?k - 1) < 2 ^ 61" using b(3) assms(2) by linarith
  then have "nat (?k - 1) < 61" by (simp only: power_strict_increasing_iff[of 2]) 
  then show k: "?k \<le> 61" by simp
  then show "sint (calculate_internal_highest_to_lowest_value_ratio r) = 2 ^ nat (?k + 1)"
    using b(1) by (simp add: calculate_internal_highest_to_lowest_value_ratio_def sint_shl1)
qed

subsection \<open>The capped order of magnitude\<close>

lemma c_trunc_nonneg: "0 \<le> x \<Longrightarrow> c_trunc x = \<lfloor>x\<rfloor>"
  by (simp add: c_trunc_def)

lemma floor_log2_floor:
  assumes "1 \<le> (d::real)"
  shows "\<lfloor>log 2 (real_of_int \<lfloor>d\<rfloor>)\<rfloor> = \<lfloor>log 2 d\<rfloor>"
proof -
  define k where "k = \<lfloor>log 2 d\<rfloor>"
  have dpos: "0 < d" using assms by simp
  have two: "1 < (2::real)" by simp
  have "0 \<le> log 2 d" using assms by simp
  then have k0: "0 \<le> k" by (simp add: k_def)
  from floor_log_eq_powr_iff[OF dpos two, of k]
  have b: "2 powr real_of_int k \<le> d" "d < 2 powr real_of_int (k + 1)"
    by (simp_all add: k_def)
  have "real_of_int (2 ^ nat k) \<le> d" using b(1) k0 by (simp add: two_powr_of_int)
  then have "2 ^ nat k \<le> \<lfloor>d\<rfloor>" by (simp only: le_floor_iff)
  then have lo: "2 powr real_of_int k \<le> real_of_int \<lfloor>d\<rfloor>"
    using k0 by (simp add: two_powr_of_int)
  have "real_of_int \<lfloor>d\<rfloor> \<le> d" by simp
  with b(2) have hi: "real_of_int \<lfloor>d\<rfloor> < 2 powr real_of_int (k + 1)" by linarith
  have "1 \<le> \<lfloor>d\<rfloor>" using assms by simp
  then have fpos: "0 < real_of_int \<lfloor>d\<rfloor>" by simp
  from floor_log_eq_powr_iff[OF fpos two, of k] lo hi show ?thesis
    unfolding k_def by blast
qed

lemma sint_word_of_int_small:
  assumes "0 \<le> n" "n < 2 ^ 63"
  shows "sint (word_of_int n :: 64 word) = n"
proof -
  have "- (2 ^ 63) \<le> n" using assms(1) by (rule order_trans[rotated]) simp
  with assms(2) show ?thesis by (simp add: sint_sbintrunc' signed_take_bit_int_eq_self)
qed

lemma order_of_small_double:
  assumes "1 \<le> d" "d \<le> 2 ^ 50"
  shows "find_containing_binary_order_of_magnitude (double_to_int64 d) = \<lfloor>log 2 d\<rfloor> + 1"
proof -
  have f1: "1 \<le> \<lfloor>d\<rfloor>" using assms(1) by simp
  have "\<lfloor>d\<rfloor> \<le> 2 ^ 50" using assms(2) by (simp add: floor_le_iff)
  then have f2: "\<lfloor>d\<rfloor> < 2 ^ 63" by simp
  have w: "double_to_int64 d = word_of_int \<lfloor>d\<rfloor>"
    using assms(1) by (simp add: double_to_int64_def c_trunc_def)
  have s: "sint (double_to_int64 d) = \<lfloor>d\<rfloor>"
    unfolding w by (rule sint_word_of_int_small) (use f1 f2 in simp_all)
  have "1 \<le> sint (double_to_int64 d)" using f1 s by simp
  from floor_log2_order[OF this] floor_log2_floor[OF assms(1)] show ?thesis
    by (simp only: s)
qed

lemma capped_value:
  assumes "1 \<le> d"
  shows "find_capped_containing_binary_order_of_magnitude E h d =
           (if d > fp_of_int64 E (highest_to_lowest_value_ratio h)
            then c_trunc (log2_quotient E (highest_to_lowest_value_ratio h))
            else if d > 2 ^ 50 then 50
            else \<lfloor>log 2 d\<rfloor> + 1)"
  using order_of_small_double[OF assms]
  by (simp add: find_capped_containing_binary_order_of_magnitude_def pow_def)

lemma log2_quotient_bracket:
  assumes "binary64_arithmetic E" "2 \<le> sint w"
  shows "1 \<le> c_trunc (log2_quotient E w)"
    and "c_trunc (log2_quotient E w) \<le> \<lfloor>log 2 (real_of_int (sint w))\<rfloor> + 1"
    and "\<lfloor>log 2 (real_of_int (sint w))\<rfloor> - 1 \<le> c_trunc (log2_quotient E w)"
proof -
  let ?Q = "log2_quotient E w" and ?L = "log 2 (real_of_int (sint w))"
  from assms have q: "1 \<le> ?Q" "\<bar>?Q - ?L\<bar> < 1"
    by (simp_all add: binary64_arithmetic_def del: of_int_sint)
  have t: "c_trunc ?Q = \<lfloor>?Q\<rfloor>" using q(1) by (intro c_trunc_nonneg) simp
  show "1 \<le> c_trunc ?Q" unfolding t using q(1) by simp
  have "?Q \<le> ?L + 1" using q(2) by linarith
  then have "\<lfloor>?Q\<rfloor> \<le> \<lfloor>?L + 1\<rfloor>" by (rule floor_mono)
  then show "c_trunc ?Q \<le> \<lfloor>?L\<rfloor> + 1" unfolding t by simp
  have "?L - 1 \<le> ?Q" using q(2) by linarith
  then have "\<lfloor>?L - 1\<rfloor> \<le> \<lfloor>?Q\<rfloor>" by (rule floor_mono)
  then show "\<lfloor>?L\<rfloor> - 1 \<le> c_trunc ?Q" unfolding t by simp
qed

lemma converted_ratio_bounds:
  assumes "binary64_arithmetic E" "2 \<le> sint w" "d \<le> fp_of_int64 E w" "d \<le> 2 ^ 53"
  shows "d \<le> real_of_int (sint w)"
proof (cases "sint w \<le> 2 ^ 53")
  case True
  with assms(1,2) have "fp_of_int64 E w = real_of_int (sint w)"
    by (simp add: binary64_arithmetic_def del: of_int_sint)
  with assms(3) show ?thesis by simp
next
  case False
  then have "(2::int) ^ 53 \<le> sint w" by simp
  then have "real_of_int (2 ^ 53) \<le> real_of_int (sint w)" by (simp only: of_int_le_iff)
  with assms(4) show ?thesis by simp
qed

lemma capped_bounds:
  assumes "binary64_arithmetic E" "2 \<le> sint (highest_to_lowest_value_ratio h)" "1 \<le> d"
  shows "1 \<le> find_capped_containing_binary_order_of_magnitude E h d"
    and "find_capped_containing_binary_order_of_magnitude E h d
           \<le> find_containing_binary_order_of_magnitude (highest_to_lowest_value_ratio h)"
proof -
  let ?w = "highest_to_lowest_value_ratio h"
  let ?r = "real_of_int (sint ?w)"
  let ?k = "find_containing_binary_order_of_magnitude ?w"
  have one: "1 \<le> sint ?w" using assms(2) by simp
  have fl: "\<lfloor>log 2 ?r\<rfloor> = ?k - 1" by (rule floor_log2_order[OF one])
  have "0 < sint ?w" using one by linarith
  then have rpos: "0 < ?r" by (simp only: of_int_0_less_iff)
  note q = log2_quotient_bracket[OF assms(1,2)]
  have q_hi: "c_trunc (log2_quotient E ?w) \<le> ?k" using q(2) fl by simp
  have below: "\<lfloor>log 2 x\<rfloor> + 1 \<le> ?k" if "1 \<le> x" "x \<le> ?r" for x
  proof -
    have "log 2 x \<le> log 2 ?r" using that by (subst log_le_cancel_iff) simp_all
    then have "\<lfloor>log 2 x\<rfloor> \<le> \<lfloor>log 2 ?r\<rfloor>" by (rule floor_mono)
    then show ?thesis using fl by simp
  qed
  have d_lo: "1 \<le> \<lfloor>log 2 d\<rfloor> + 1" using assms(3) by simp
  have third: "\<lfloor>log 2 d\<rfloor> + 1 \<le> ?k"
    if "d \<le> fp_of_int64 E ?w" "d \<le> 2 ^ 50"
  proof -
    have "d \<le> 2 ^ 53" using that(2) by simp
    from converted_ratio_bounds[OF assms(1,2) that(1) this] assms(3) show ?thesis
      by (intro below) simp_all
  qed
  have second: "50 \<le> ?k" if "d \<le> fp_of_int64 E ?w" "2 ^ 50 < d"
  proof -
    have "(2::real) ^ 50 \<le> fp_of_int64 E ?w" using that by simp
    moreover have "(2::real) ^ 50 \<le> 2 ^ 53" by simp
    ultimately have "(2::real) ^ 50 \<le> ?r"
      by (rule converted_ratio_bounds[OF assms(1,2)])
    then have "real_of_int (2 ^ 50) \<le> ?r" by simp
    then have "(2::int) ^ 50 \<le> sint ?w" by (simp only: of_int_le_iff)
    also have "sint ?w < 2 ^ nat ?k" by (rule order_bounds(4)[OF one])
    finally have "(50::nat) < nat ?k" by (simp only: power_strict_increasing_iff[of 2])
    then show ?thesis by simp
  qed
  show "1 \<le> find_capped_containing_binary_order_of_magnitude E h d"
    using q(1) d_lo by (simp add: capped_value[OF assms(3)])
  show "find_capped_containing_binary_order_of_magnitude E h d \<le> ?k"
    using q_hi third second by (simp add: capped_value[OF assms(3)])
qed

section \<open>Facts about the range adjustment and the reachable states\<close>

subsection \<open>The loops of the range adjustment return\<close>

lemma shift_multiplier_value:
  assumes "1 \<le> s" "s \<le> 62"
  shows "int64_to_double (shl1 s) = 2 ^ nat s"
proof -
  have "sint (shl1 s) = 2 ^ nat s" using assms by (intro sint_shl1) simp_all
  then show ?thesis by (simp add: int64_to_double_def del: of_int_sint)
qed

lemma shift_right_fields:
  "highest_to_lowest_value_ratio (snd (shift_covered_range_right E h s)) = highest_to_lowest_value_ratio h"
  "current_lowest_value (snd (shift_covered_range_right E h s)) =
     (if fst (shift_covered_range_right E h s)
      then current_lowest_value h * (1 / int64_to_double (shl1 s)) else current_lowest_value h)"
  "current_highest_value (snd (shift_covered_range_right E h s)) =
     (if fst (shift_covered_range_right E h s)
      then current_highest_value h * (1 / int64_to_double (shl1 s)) else current_highest_value h)"
  by (simp_all add: shift_covered_range_right_def scale_window_def Let_def)

lemma shift_left_fields:
  "highest_to_lowest_value_ratio (snd (shift_covered_range_left E h s)) = highest_to_lowest_value_ratio h"
  "current_lowest_value (snd (shift_covered_range_left E h s)) =
     (if fst (shift_covered_range_left E h s)
      then current_lowest_value h * (1 * int64_to_double (shl1 s)) else current_lowest_value h)"
  "current_highest_value (snd (shift_covered_range_left E h s)) =
     (if fst (shift_covered_range_left E h s)
      then current_highest_value h * (1 * int64_to_double (shl1 s)) else current_highest_value h)"
  by (simp_all add: shift_covered_range_left_def scale_window_def Let_def)

lemma r_val_ge_1:
  assumes "binary64_arithmetic E" "0 < y" "y < x"
  shows "1 \<le> fp_sub E (ceil (fp_div E x y)) 1"
proof -
  have "1 < fp_div E x y" using assms by (simp add: binary64_arithmetic_def)
  then have "1 < \<lceil>fp_div E x y\<rceil>" by (simp add: one_less_ceiling)
  then have "2 \<le> \<lceil>fp_div E x y\<rceil>" by linarith
  then have "(2::real) \<le> real_of_int \<lceil>fp_div E x y\<rceil>" by linarith
  then have "2 \<le> ceil (fp_div E x y)" by (simp add: ceil_def)
  with assms(1) show ?thesis by (simp add: binary64_arithmetic_def)
qed

lemma shift_amount_bounds:
  assumes "binary64_arithmetic E" "2 \<le> sint (highest_to_lowest_value_ratio h)"
    "sint (highest_to_lowest_value_ratio h) < 2 ^ 61" "1 \<le> d"
  shows "1 \<le> find_capped_containing_binary_order_of_magnitude E h d"
    and "find_capped_containing_binary_order_of_magnitude E h d \<le> 62"
    and "(2::real) ^ nat (find_capped_containing_binary_order_of_magnitude E h d)
           \<le> int64_to_double
                (calculate_internal_highest_to_lowest_value_ratio (highest_to_lowest_value_ratio h))"
proof -
  let ?s = "find_capped_containing_binary_order_of_magnitude E h d"
  let ?k = "find_containing_binary_order_of_magnitude (highest_to_lowest_value_ratio h)"
  note c = capped_bounds[OF assms(1,2,4)]
  note i = internal_ratio_value[OF assms(2,3)]
  show "1 \<le> ?s" by (rule c(1))
  show "?s \<le> 62" using c(2) i(2) by linarith
  have "nat ?s \<le> nat (?k + 1)" using c(2) by simp
  then have "(2::real) ^ nat ?s \<le> 2 ^ nat (?k + 1)" by (intro power_increasing) simp_all
  also have "\<dots> = int64_to_double
      (calculate_internal_highest_to_lowest_value_ratio (highest_to_lowest_value_ratio h))"
    using i(1) by (simp add: int64_to_double_def del: of_int_sint)
  finally show "(2::real) ^ nat ?s \<le> int64_to_double
      (calculate_internal_highest_to_lowest_value_ratio (highest_to_lowest_value_ratio h))" .
qed

lemma half_le:
  assumes "1 \<le> s" "0 < (x::real)"
  shows "x * (1 / 2 ^ nat s) \<le> x / 2"
proof -
  have "(2::real) ^ 1 \<le> 2 ^ nat s" using assms(1) by (intro power_increasing) simp_all
  then have "1 / (2::real) ^ nat s \<le> 1 / 2" by (simp add: field_simps)
  then have "x * (1 / 2 ^ nat s) \<le> x * (1 / 2)" using assms(2) by (intro mult_left_mono) simp_all
  then show ?thesis by simp
qed

lemma double_le:
  assumes "1 \<le> s" "0 < (x::real)"
  shows "x * 2 \<le> x * (1 * 2 ^ nat s)"
proof -
  have "(2::real) ^ 1 \<le> 2 ^ nat s" using assms(1) by (intro power_increasing) simp_all
  then have "x * 2 ^ 1 \<le> x * 2 ^ nat s" using assms(2) by (intro mult_left_mono) simp_all
  then show ?thesis by simp
qed

lemma lower_loop_returns:
  assumes "binary64_arithmetic E" "2 \<le> sint (highest_to_lowest_value_ratio h)"
    "sint (highest_to_lowest_value_ratio h) < 2 ^ 61"
    "0 < v" "v < current_lowest_value h" "current_lowest_value h \<le> v * 2 ^ n"
  shows "\<exists>r. lower_loop E h v = Some r"
  using assms(2-)
proof (induction n arbitrary: h)
  case 0
  then show ?case by simp
next
  case (Suc n)
  define s where "s = find_capped_containing_binary_order_of_magnitude E h
                        (fp_sub E (ceil (fp_div E (current_lowest_value h) v)) 1)"
  define r where "r = shift_covered_range_right E h s"
  have d: "1 \<le> fp_sub E (ceil (fp_div E (current_lowest_value h) v)) 1"
    using assms(1) Suc.prems(3,4) by (rule r_val_ge_1)
  have s: "1 \<le> s" "s \<le> 62"
    unfolding s_def using shift_amount_bounds[OF assms(1) Suc.prems(1,2) d] by simp_all
  have unfold: "lower_loop E h v =
      (if \<not> fst r then Some (False, snd r)
       else if v < current_lowest_value (snd r) then lower_loop E (snd r) v
       else Some (True, snd r))"
    by (subst lower_loop.simps) (simp add: Let_def r_def s_def)
  show ?case
  proof (cases "fst r \<and> v < current_lowest_value (snd r)")
    case False
    then show ?thesis unfolding unfold by auto
  next
    case True
    have L: "current_lowest_value (snd r) = current_lowest_value h * (1 / 2 ^ nat s)"
      using True by (simp add: r_def shift_right_fields shift_multiplier_value[OF s])
    have pos: "0 < current_lowest_value h" using Suc.prems(3,4) by linarith
    have "current_lowest_value (snd r) \<le> current_lowest_value h / 2"
      unfolding L by (rule half_le[OF s(1) pos])
    also have "\<dots> \<le> v * 2 ^ n" using Suc.prems(5) by simp
    finally have le: "current_lowest_value (snd r) \<le> v * 2 ^ n" .
    have ratio: "2 \<le> sint (highest_to_lowest_value_ratio (snd r))"
      "sint (highest_to_lowest_value_ratio (snd r)) < 2 ^ 61"
      using Suc.prems(1,2) by (simp_all add: r_def shift_right_fields)
    from Suc.IH[OF ratio Suc.prems(3) _ le] True show ?thesis unfolding unfold by simp
  qed
qed

lemma upper_loop_returns:
  assumes "binary64_arithmetic E" "2 \<le> sint (highest_to_lowest_value_ratio h)"
    "sint (highest_to_lowest_value_ratio h) < 2 ^ 61"
    "0 < current_highest_value h" "current_highest_value h \<le> v"
    "v < current_highest_value h * 2 ^ n" "v \<le> HIGHEST_VALUE_EVA"
  shows "\<exists>r. upper_loop E h v = Some r"
  using assms(2-6)
proof (induction n arbitrary: h)
  case 0
  then show ?case by simp
next
  case (Suc n)
  define s where "s = find_capped_containing_binary_order_of_magnitude E h
      (fp_sub E (ceil (fp_div E (nextafter_DBL_MAX E v) (current_highest_value h))) 1)"
  define r where "r = shift_covered_range_left E h s"
  have "v < nextafter_DBL_MAX E v" using assms(1,7) by (simp add: binary64_arithmetic_def)
  then have "current_highest_value h < nextafter_DBL_MAX E v" using Suc.prems(4) by linarith
  with assms(1) Suc.prems(3)
  have d: "1 \<le> fp_sub E (ceil (fp_div E (nextafter_DBL_MAX E v) (current_highest_value h))) 1"
    by (rule r_val_ge_1)
  have s: "1 \<le> s" "s \<le> 62"
    unfolding s_def using shift_amount_bounds[OF assms(1) Suc.prems(1,2) d] by simp_all
  have unfold: "upper_loop E h v =
      (if \<not> fst r then Some (False, snd r)
       else if v \<ge> current_highest_value (snd r) then upper_loop E (snd r) v
       else Some (True, snd r))"
    by (subst upper_loop.simps) (simp add: Let_def r_def s_def)
  show ?case
  proof (cases "fst r \<and> v \<ge> current_highest_value (snd r)")
    case False
    then show ?thesis unfolding unfold by auto
  next
    case True
    have H: "current_highest_value (snd r) = current_highest_value h * (1 * 2 ^ nat s)"
      using True by (simp add: r_def shift_left_fields shift_multiplier_value[OF s])
    have ge: "current_highest_value h * 2 \<le> current_highest_value (snd r)"
      unfolding H by (rule double_le[OF s(1) Suc.prems(3)])
    then have pos: "0 < current_highest_value (snd r)" using Suc.prems(3) by linarith
    have "v < (current_highest_value h * 2) * 2 ^ n" using Suc.prems(5) by (simp add: mult.assoc)
    also have "\<dots> \<le> current_highest_value (snd r) * 2 ^ n"
      using ge by (intro mult_right_mono) simp_all
    finally have lt: "v < current_highest_value (snd r) * 2 ^ n" .
    have ratio: "2 \<le> sint (highest_to_lowest_value_ratio (snd r))"
      "sint (highest_to_lowest_value_ratio (snd r)) < 2 ^ 61"
      using Suc.prems(1,2) by (simp_all add: r_def shift_left_fields)
    from Suc.IH[OF ratio pos _ lt] True show ?thesis unfolding unfold by simp
  qed
qed

lemma ex_power_bound:
  assumes "0 < (b::real)"
  shows "\<exists>n. a < b * 2 ^ n"
proof -
  obtain n where "a / b < 2 ^ n" using real_arch_pow[of 2 "a / b"] by auto
  then have "a < b * 2 ^ n" using assms by (simp add: field_simps)
  then show ?thesis ..
qed

lemma internal_ratio_positive:
  assumes "2 \<le> sint r" "sint r < 2 ^ 61"
  shows "0 < int64_to_double (calculate_internal_highest_to_lowest_value_ratio r)"
  using internal_ratio_value(1)[OF assms] by (simp add: int64_to_double_def del: of_int_sint)

lemma well_formed_highest_positive:
  assumes "well_formed h"
  shows "0 < current_highest_value h"
proof -
  from assms have "0 < int64_to_double
      (calculate_internal_highest_to_lowest_value_ratio (highest_to_lowest_value_ratio h))"
    by (intro internal_ratio_positive) (simp_all add: well_formed_def)
  moreover from assms have "0 < current_lowest_value h" by (simp add: well_formed_def)
  ultimately show ?thesis using assms by (simp add: well_formed_def window_invariant_def)
qed

lemma adjust_returns:
  assumes "well_formed h" "binary64_arithmetic E"
  shows "\<exists>r. adjust_range_for_value E h v = Some r"
proof -
  have ratio: "2 \<le> sint (highest_to_lowest_value_ratio h)"
    "sint (highest_to_lowest_value_ratio h) < 2 ^ 61"
    using assms(1) by (simp_all add: well_formed_def)
  have lower: "\<exists>r. lower_loop E h v = Some r" if "0 < v" "v < current_lowest_value h"
  proof -
    from that(1) obtain n where "current_lowest_value h < v * 2 ^ n"
      using ex_power_bound by blast
    then have "current_lowest_value h \<le> v * 2 ^ n" by simp
    with assms(2) ratio that show ?thesis by (rule lower_loop_returns)
  qed
  have upper: "\<exists>r. upper_loop E h v = Some r"
    if "current_highest_value h \<le> v" "v \<le> HIGHEST_VALUE_EVA"
  proof -
    have pos: "0 < current_highest_value h" by (rule well_formed_highest_positive[OF assms(1)])
    then obtain n where "v < current_highest_value h * 2 ^ n"
      using ex_power_bound by blast
    with assms(2) ratio pos that(1) show ?thesis using that(2) by (rule upper_loop_returns)
  qed
  show ?thesis
  proof (cases "v = 0")
    case True
    then show ?thesis by (auto simp: adjust_range_for_value_def)
  next
    case nz: False
    show ?thesis
    proof (cases "v < current_lowest_value h")
      case True
      then show ?thesis using nz lower[of] by (cases "v < 0") (auto simp: adjust_range_for_value_def)
    next
      case False
      then show ?thesis using nz upper by (auto simp: adjust_range_for_value_def)
    qed
  qed
qed

subsection \<open>The window invariant is kept\<close>

lemma scale_window_invariant: "window_invariant h \<Longrightarrow> window_invariant (scale_window m h)"
  by (simp add: window_invariant_def scale_window_def)

lemma shift_right_invariant:
  "window_invariant h \<Longrightarrow> window_invariant (snd (shift_covered_range_right E h s))"
  by (simp add: window_invariant_def shift_covered_range_right_def scale_window_def Let_def)

lemma shift_left_invariant:
  "window_invariant h \<Longrightarrow> window_invariant (snd (shift_covered_range_left E h s))"
  by (simp add: window_invariant_def shift_covered_range_left_def scale_window_def Let_def)

lemma lower_loop_invariant:
  assumes "lower_loop E h v = Some r"
  shows "window_invariant h \<longrightarrow>
           window_invariant (snd r) \<and>
           highest_to_lowest_value_ratio (snd r) = highest_to_lowest_value_ratio h"
proof (rule lower_loop.raw_induct
    [where P = "\<lambda>E h v r. window_invariant h \<longrightarrow> window_invariant (snd r) \<and>
       highest_to_lowest_value_ratio (snd r) = highest_to_lowest_value_ratio h", OF _ assms])
  fix f :: "'a externals \<Rightarrow> 'a hdr_dbl_histogram \<Rightarrow> real \<Rightarrow> (bool \<times> 'a hdr_dbl_histogram) option"
  fix E h v r
  assume IH: "\<And>E h v r. f E h v = Some r \<Longrightarrow> window_invariant h \<longrightarrow>
      window_invariant (snd r) \<and> highest_to_lowest_value_ratio (snd r) = highest_to_lowest_value_ratio h"
  assume body: "(let r_val = fp_sub E (ceil (fp_div E (current_lowest_value h) v)) 1;
          shift_amount = find_capped_containing_binary_order_of_magnitude E h r_val;
          r = shift_covered_range_right E h shift_amount
      in if \<not> fst r then Some (False, snd r)
         else if v < current_lowest_value (snd r) then f E (snd r) v
         else Some (True, snd r)) = Some r"
  define h1 where "h1 = snd (shift_covered_range_right E h
      (find_capped_containing_binary_order_of_magnitude E h
         (fp_sub E (ceil (fp_div E (current_lowest_value h) v)) 1)))"
  have step: "window_invariant h \<longrightarrow> window_invariant h1 \<and>
      highest_to_lowest_value_ratio h1 = highest_to_lowest_value_ratio h"
    by (simp add: h1_def shift_right_invariant shift_right_fields)
  from body have "r = (False, h1) \<or> r = (True, h1) \<or> f E h1 v = Some r"
    by (auto simp: Let_def h1_def split: if_splits)
  with IH[of E h1 v r] step
  show "window_invariant h \<longrightarrow> window_invariant (snd r) \<and>
      highest_to_lowest_value_ratio (snd r) = highest_to_lowest_value_ratio h"
    by auto
qed

lemma upper_loop_invariant:
  assumes "upper_loop E h v = Some r"
  shows "window_invariant h \<longrightarrow>
           window_invariant (snd r) \<and>
           highest_to_lowest_value_ratio (snd r) = highest_to_lowest_value_ratio h"
proof (rule upper_loop.raw_induct
    [where P = "\<lambda>E h v r. window_invariant h \<longrightarrow> window_invariant (snd r) \<and>
       highest_to_lowest_value_ratio (snd r) = highest_to_lowest_value_ratio h", OF _ assms])
  fix f :: "'a externals \<Rightarrow> 'a hdr_dbl_histogram \<Rightarrow> real \<Rightarrow> (bool \<times> 'a hdr_dbl_histogram) option"
  fix E h v r
  assume IH: "\<And>E h v r. f E h v = Some r \<Longrightarrow> window_invariant h \<longrightarrow>
      window_invariant (snd r) \<and> highest_to_lowest_value_ratio (snd r) = highest_to_lowest_value_ratio h"
  assume body: "(let r_val = fp_sub E (ceil (fp_div E (nextafter_DBL_MAX E v) (current_highest_value h))) 1;
          shift_amount = find_capped_containing_binary_order_of_magnitude E h r_val;
          r = shift_covered_range_left E h shift_amount
      in if \<not> fst r then Some (False, snd r)
         else if current_highest_value (snd r) \<le> v then f E (snd r) v
         else Some (True, snd r)) = Some r"
  define h1 where "h1 = snd (shift_covered_range_left E h
      (find_capped_containing_binary_order_of_magnitude E h
         (fp_sub E (ceil (fp_div E (nextafter_DBL_MAX E v) (current_highest_value h))) 1)))"
  have step: "window_invariant h \<longrightarrow> window_invariant h1 \<and>
      highest_to_lowest_value_ratio h1 = highest_to_lowest_value_ratio h"
    by (simp add: h1_def shift_left_invariant shift_left_fields)
  from body have "r = (False, h1) \<or> r = (True, h1) \<or> f E h1 v = Some r"
    by (auto simp: Let_def h1_def split: if_splits)
  with IH[of E h1 v r] step
  show "window_invariant h \<longrightarrow> window_invariant (snd r) \<and>
      highest_to_lowest_value_ratio (snd r) = highest_to_lowest_value_ratio h"
    by auto
qed

lemma adjust_invariant:
  assumes "adjust_range_for_value E h v = Some r" "window_invariant h"
  shows "window_invariant (snd r) \<and>
           highest_to_lowest_value_ratio (snd r) = highest_to_lowest_value_ratio h"
  using assms lower_loop_invariant[of E h v r] upper_loop_invariant[of E h v r]
  by (auto simp: adjust_range_for_value_def split: if_splits)

lemma record_converted_invariant:
  "window_invariant h \<Longrightarrow> window_invariant (snd (record_converted E h v)) \<and>
     highest_to_lowest_value_ratio (snd (record_converted E h v)) = highest_to_lowest_value_ratio h"
  by (simp add: record_converted_def window_invariant_def Let_def)

lemma record_invariant:
  assumes "hdr_dbl_record_value E h v = Some r" "window_invariant h"
  shows "window_invariant (snd r) \<and>
           highest_to_lowest_value_ratio (snd r) = highest_to_lowest_value_ratio h"
proof (cases "v < current_lowest_value h \<or> current_highest_value h \<le> v")
  case False
  with assms show ?thesis
    using record_converted_invariant[of h E v] by (auto simp: hdr_dbl_record_value_def)
next
  case True
  with assms(1) obtain a where a: "adjust_range_for_value E h v = Some a"
    and r: "r = (if \<not> fst a then (False, snd a) else record_converted E (snd a) v)"
    by (auto simp: hdr_dbl_record_value_def split: option.splits if_splits)
  from adjust_invariant[OF a assms(2)] record_converted_invariant[of "snd a" E v] r
  show ?thesis by (auto split: if_splits)
qed

lemma init_invariant:
  assumes "hdr_dbl_init E ratio sf = Some (Inr h)"
  shows "window_invariant h \<and> highest_to_lowest_value_ratio h = ratio"
  using assms
  by (auto simp: hdr_dbl_init_def Let_def window_invariant_def
      split: option.splits prod.splits if_splits)

lemma reachable_invariant:
  assumes "reachable E ratio sf h"
  shows "window_invariant h \<and> highest_to_lowest_value_ratio h = ratio"
  using assms
proof (induction rule: reachable.induct)
  case (constructed h)
  then show ?case by (rule init_invariant)
next
  case (recorded h v b h')
  from record_invariant[OF recorded.hyps(2)] recorded.IH show ?case by simp
qed

subsection \<open>The conversion ratios are written at construction only\<close>

lemma shift_conversion_ratios:
  "int_to_dbl_conversion_ratio (snd (shift_covered_range_right E h s)) = int_to_dbl_conversion_ratio h"
  "dbl_to_int_conversion_ratio (snd (shift_covered_range_right E h s)) = dbl_to_int_conversion_ratio h"
  "int_to_dbl_conversion_ratio (snd (shift_covered_range_left E h s)) = int_to_dbl_conversion_ratio h"
  "dbl_to_int_conversion_ratio (snd (shift_covered_range_left E h s)) = dbl_to_int_conversion_ratio h"
  by (simp_all add: shift_covered_range_right_def shift_covered_range_left_def scale_window_def Let_def)

lemma lower_loop_conversion_ratios:
  assumes "lower_loop E h v = Some r"
  shows "int_to_dbl_conversion_ratio (snd r) = int_to_dbl_conversion_ratio h \<and>
         dbl_to_int_conversion_ratio (snd r) = dbl_to_int_conversion_ratio h"
proof (rule lower_loop.raw_induct
    [where P = "\<lambda>E h v r. int_to_dbl_conversion_ratio (snd r) = int_to_dbl_conversion_ratio h \<and>
         dbl_to_int_conversion_ratio (snd r) = dbl_to_int_conversion_ratio h", OF _ assms])
  fix f :: "'a externals \<Rightarrow> 'a hdr_dbl_histogram \<Rightarrow> real \<Rightarrow> (bool \<times> 'a hdr_dbl_histogram) option"
  fix E h v r
  assume IH: "\<And>E h v r. f E h v = Some r \<Longrightarrow>
      int_to_dbl_conversion_ratio (snd r) = int_to_dbl_conversion_ratio h \<and>
      dbl_to_int_conversion_ratio (snd r) = dbl_to_int_conversion_ratio h"
  assume body: "(let r_val = fp_sub E (ceil (fp_div E (current_lowest_value h) v)) 1;
          shift_amount = find_capped_containing_binary_order_of_magnitude E h r_val;
          r = shift_covered_range_right E h shift_amount
      in if \<not> fst r then Some (False, snd r)
         else if v < current_lowest_value (snd r) then f E (snd r) v
         else Some (True, snd r)) = Some r"
  define h1 where "h1 = snd (shift_covered_range_right E h
      (find_capped_containing_binary_order_of_magnitude E h
         (fp_sub E (ceil (fp_div E (current_lowest_value h) v)) 1)))"
  have step: "int_to_dbl_conversion_ratio h1 = int_to_dbl_conversion_ratio h \<and>
      dbl_to_int_conversion_ratio h1 = dbl_to_int_conversion_ratio h"
    by (simp add: h1_def shift_conversion_ratios)
  from body have "r = (False, h1) \<or> r = (True, h1) \<or> f E h1 v = Some r"
    by (auto simp: Let_def h1_def split: if_splits)
  with IH[of E h1 v r] step
  show "int_to_dbl_conversion_ratio (snd r) = int_to_dbl_conversion_ratio h \<and>
      dbl_to_int_conversion_ratio (snd r) = dbl_to_int_conversion_ratio h"
    by auto
qed

lemma upper_loop_conversion_ratios:
  assumes "upper_loop E h v = Some r"
  shows "int_to_dbl_conversion_ratio (snd r) = int_to_dbl_conversion_ratio h \<and>
         dbl_to_int_conversion_ratio (snd r) = dbl_to_int_conversion_ratio h"
proof (rule upper_loop.raw_induct
    [where P = "\<lambda>E h v r. int_to_dbl_conversion_ratio (snd r) = int_to_dbl_conversion_ratio h \<and>
         dbl_to_int_conversion_ratio (snd r) = dbl_to_int_conversion_ratio h", OF _ assms])
  fix f :: "'a externals \<Rightarrow> 'a hdr_dbl_histogram \<Rightarrow> real \<Rightarrow> (bool \<times> 'a hdr_dbl_histogram) option"
  fix E h v r
  assume IH: "\<And>E h v r. f E h v = Some r \<Longrightarrow>
      int_to_dbl_conversion_ratio (snd r) = int_to_dbl_conversion_ratio h \<and>
      dbl_to_int_conversion_ratio (snd r) = dbl_to_int_conversion_ratio h"
  assume body: "(let r_val = fp_sub E (ceil (fp_div E (nextafter_DBL_MAX E v) (current_highest_value h))) 1;
          shift_amount = find_capped_containing_binary_order_of_magnitude E h r_val;
          r = shift_covered_range_left E h shift_amount
      in if \<not> fst r then Some (False, snd r)
         else if current_highest_value (snd r) \<le> v then f E (snd r) v
         else Some (True, snd r)) = Some r"
  define h1 where "h1 = snd (shift_covered_range_left E h
      (find_capped_containing_binary_order_of_magnitude E h
         (fp_sub E (ceil (fp_div E (nextafter_DBL_MAX E v) (current_highest_value h))) 1)))"
  have step: "int_to_dbl_conversion_ratio h1 = int_to_dbl_conversion_ratio h \<and>
      dbl_to_int_conversion_ratio h1 = dbl_to_int_conversion_ratio h"
    by (simp add: h1_def shift_conversion_ratios)
  from body have "r = (False, h1) \<or> r = (True, h1) \<or> f E h1 v = Some r"
    by (auto simp: Let_def h1_def split: if_splits)
  with IH[of E h1 v r] step
  show "int_to_dbl_conversion_ratio (snd r) = int_to_dbl_conversion_ratio h \<and>
      dbl_to_int_conversion_ratio (snd r) = dbl_to_int_conversion_ratio h"
    by auto
qed

lemma record_conversion_ratios:
  assumes "hdr_dbl_record_value E h v = Some r"
  shows "int_to_dbl_conversion_ratio (snd r) = int_to_dbl_conversion_ratio h \<and>
         dbl_to_int_conversion_ratio (snd r) = dbl_to_int_conversion_ratio h"
proof -
  have adj: "int_to_dbl_conversion_ratio (snd a) = int_to_dbl_conversion_ratio h \<and>
         dbl_to_int_conversion_ratio (snd a) = dbl_to_int_conversion_ratio h"
    if "adjust_range_for_value E h v = Some a" for a
    using that lower_loop_conversion_ratios[of E h v a] upper_loop_conversion_ratios[of E h v a]
    by (auto simp: adjust_range_for_value_def split: if_splits)
  have conv: "int_to_dbl_conversion_ratio (snd (record_converted E h' v)) = int_to_dbl_conversion_ratio h' \<and>
         dbl_to_int_conversion_ratio (snd (record_converted E h' v)) = dbl_to_int_conversion_ratio h'"
    for h' by (simp add: record_converted_def Let_def)
  show ?thesis
  proof (cases "v < current_lowest_value h \<or> current_highest_value h \<le> v")
    case False
    with assms conv[of h] show ?thesis by (auto simp: hdr_dbl_record_value_def)
  next
    case True
    with assms obtain a where a: "adjust_range_for_value E h v = Some a"
      and r: "r = (if \<not> fst a then (False, snd a) else record_converted E (snd a) v)"
      by (auto simp: hdr_dbl_record_value_def split: option.splits if_splits)
    from adj[OF a] conv[of "snd a"] r show ?thesis by (auto split: if_splits)
  qed
qed

lemma reachable_reciprocal:
  assumes "reachable E ratio sf h"
  shows "dbl_to_int_conversion_ratio h = 1 / int_to_dbl_conversion_ratio h"
  using assms
proof (induction rule: reachable.induct)
  case (constructed h)
  then show ?case
    by (auto simp: hdr_dbl_init_def Let_def split: option.splits prod.splits if_splits)
next
  case (recorded h v b h')
  from record_conversion_ratios[OF recorded.hyps(2)] recorded.IH show ?case by simp
qed

subsection \<open>Well-formed states and what the loops return\<close>

lemma shift_right_well_formed:
  assumes "well_formed h" "1 \<le> s" "s \<le> 62"
  shows "well_formed (snd (shift_covered_range_right E h s))"
proof -
  have "0 < current_lowest_value h * (1 / 2 ^ nat s)"
    using assms(1) by (simp add: well_formed_def)
  then show ?thesis
    using assms(1) shift_right_invariant[of h E s]
    by (simp add: well_formed_def shift_right_fields shift_multiplier_value[OF assms(2,3)])
qed

lemma shift_left_well_formed:
  assumes "well_formed h" "1 \<le> s" "s \<le> 62"
  shows "well_formed (snd (shift_covered_range_left E h s))"
proof -
  have "0 < current_lowest_value h * (1 * 2 ^ nat s)"
    using assms(1) by (simp add: well_formed_def)
  then show ?thesis
    using assms(1) shift_left_invariant[of h E s]
    by (simp add: well_formed_def shift_left_fields shift_multiplier_value[OF assms(2,3)])
qed

text \<open>After an applied shift down by \<open>s\<close> bits, with \<open>2 ^ s\<close> at most the internal ratio, a
  value that was below the lower bound is below the new upper bound; after an applied shift
  up, a value that was at or above the upper bound is at or above the new lower bound.\<close>

lemma below_new_upper_bound:
  assumes "well_formed h" "1 \<le> s" "s \<le> 62"
    "(2::real) ^ nat s \<le> int64_to_double
       (calculate_internal_highest_to_lowest_value_ratio (highest_to_lowest_value_ratio h))"
    "fst (shift_covered_range_right E h s)" "v < current_lowest_value h"
  shows "v < current_highest_value (snd (shift_covered_range_right E h s))"
proof -
  let ?I = "int64_to_double
       (calculate_internal_highest_to_lowest_value_ratio (highest_to_lowest_value_ratio h))"
  have L: "0 < current_lowest_value h" and H: "current_highest_value h = current_lowest_value h * ?I"
    using assms(1) by (simp_all add: well_formed_def window_invariant_def)
  have "current_lowest_value h * 2 ^ nat s \<le> current_lowest_value h * ?I"
    using assms(4) L by (intro mult_left_mono) simp_all
  then have "current_lowest_value h \<le> current_lowest_value h * ?I / 2 ^ nat s"
    by (simp add: field_simps)
  also have "\<dots> = current_highest_value (snd (shift_covered_range_right E h s))"
    using assms(5) H by (simp add: shift_right_fields shift_multiplier_value[OF assms(2,3)])
  finally show ?thesis using assms(6) by linarith
qed

lemma above_new_lower_bound:
  assumes "well_formed h" "1 \<le> s" "s \<le> 62"
    "(2::real) ^ nat s \<le> int64_to_double
       (calculate_internal_highest_to_lowest_value_ratio (highest_to_lowest_value_ratio h))"
    "fst (shift_covered_range_left E h s)" "current_highest_value h \<le> v"
  shows "current_lowest_value (snd (shift_covered_range_left E h s)) \<le> v"
proof -
  let ?I = "int64_to_double
       (calculate_internal_highest_to_lowest_value_ratio (highest_to_lowest_value_ratio h))"
  have L: "0 < current_lowest_value h" and H: "current_highest_value h = current_lowest_value h * ?I"
    using assms(1) by (simp_all add: well_formed_def window_invariant_def)
  have "current_lowest_value (snd (shift_covered_range_left E h s)) = current_lowest_value h * 2 ^ nat s"
    using assms(5) by (simp add: shift_left_fields shift_multiplier_value[OF assms(2,3)])
  also have "\<dots> \<le> current_lowest_value h * ?I"
    using assms(4) L by (intro mult_left_mono) simp_all
  finally show ?thesis using assms(6) H by linarith
qed

lemma lower_loop_result:
  assumes "lower_loop E h v = Some r"
  shows "binary64_arithmetic E \<and> well_formed h \<and> 0 < v \<and> v < current_lowest_value h \<longrightarrow>
           well_formed (snd r) \<and>
           (fst r \<longrightarrow> current_lowest_value (snd r) \<le> v \<and> v < current_highest_value (snd r)) \<and>
           (\<not> fst r \<longrightarrow> (\<exists>h1 s. \<not> fst (shift_covered_range_right E h1 s) \<and>
                                 snd r = snd (shift_covered_range_right E h1 s)))"
proof (rule lower_loop.raw_induct
    [where P = "\<lambda>E h v r. binary64_arithmetic E \<and> well_formed h \<and> 0 < v \<and> v < current_lowest_value h \<longrightarrow>
           well_formed (snd r) \<and>
           (fst r \<longrightarrow> current_lowest_value (snd r) \<le> v \<and> v < current_highest_value (snd r)) \<and>
           (\<not> fst r \<longrightarrow> (\<exists>h1 s. \<not> fst (shift_covered_range_right E h1 s) \<and>
                                 snd r = snd (shift_covered_range_right E h1 s)))", OF _ assms])
  fix f :: "'a externals \<Rightarrow> 'a hdr_dbl_histogram \<Rightarrow> real \<Rightarrow> (bool \<times> 'a hdr_dbl_histogram) option"
  fix E h v r
  assume IH: "\<And>E h v r. f E h v = Some r \<Longrightarrow>
      binary64_arithmetic E \<and> well_formed h \<and> 0 < v \<and> v < current_lowest_value h \<longrightarrow>
           well_formed (snd r) \<and>
           (fst r \<longrightarrow> current_lowest_value (snd r) \<le> v \<and> v < current_highest_value (snd r)) \<and>
           (\<not> fst r \<longrightarrow> (\<exists>h1 s. \<not> fst (shift_covered_range_right E h1 s) \<and>
                                 snd r = snd (shift_covered_range_right E h1 s)))"
  assume body: "(let r_val = fp_sub E (ceil (fp_div E (current_lowest_value h) v)) 1;
          shift_amount = find_capped_containing_binary_order_of_magnitude E h r_val;
          r = shift_covered_range_right E h shift_amount
      in if \<not> fst r then Some (False, snd r)
         else if v < current_lowest_value (snd r) then f E (snd r) v
         else Some (True, snd r)) = Some r"
  show "binary64_arithmetic E \<and> well_formed h \<and> 0 < v \<and> v < current_lowest_value h \<longrightarrow>
           well_formed (snd r) \<and>
           (fst r \<longrightarrow> current_lowest_value (snd r) \<le> v \<and> v < current_highest_value (snd r)) \<and>
           (\<not> fst r \<longrightarrow> (\<exists>h1 s. \<not> fst (shift_covered_range_right E h1 s) \<and>
                                 snd r = snd (shift_covered_range_right E h1 s)))"
  proof
    assume pre: "binary64_arithmetic E \<and> well_formed h \<and> 0 < v \<and> v < current_lowest_value h"
    define s where "s = find_capped_containing_binary_order_of_magnitude E h
                          (fp_sub E (ceil (fp_div E (current_lowest_value h) v)) 1)"
    define r1 where "r1 = shift_covered_range_right E h s"
    have d: "1 \<le> fp_sub E (ceil (fp_div E (current_lowest_value h) v)) 1"
      using pre by (intro r_val_ge_1) simp_all
    have ratio: "2 \<le> sint (highest_to_lowest_value_ratio h)"
      "sint (highest_to_lowest_value_ratio h) < 2 ^ 61"
      using pre by (simp_all add: well_formed_def)
    have bin: "binary64_arithmetic E" and wf: "well_formed h" using pre by simp_all
    note s = shift_amount_bounds[OF bin ratio d, folded s_def]
    have wf1: "well_formed (snd r1)"
      unfolding r1_def using wf s(1,2) by (rule shift_right_well_formed)
    have fits: "v < current_highest_value (snd r1)" if "fst r1"
      unfolding r1_def using wf s that[unfolded r1_def] pre
      by (intro below_new_upper_bound) simp_all
    from body have cases: "(\<not> fst r1 \<and> r = (False, snd r1)) \<or>
        (fst r1 \<and> \<not> v < current_lowest_value (snd r1) \<and> r = (True, snd r1)) \<or>
        (fst r1 \<and> v < current_lowest_value (snd r1) \<and> f E (snd r1) v = Some r)"
      by (auto simp: Let_def r1_def s_def split: if_splits)
    then show "well_formed (snd r) \<and>
           (fst r \<longrightarrow> current_lowest_value (snd r) \<le> v \<and> v < current_highest_value (snd r)) \<and>
           (\<not> fst r \<longrightarrow> (\<exists>h1 s. \<not> fst (shift_covered_range_right E h1 s) \<and>
                                 snd r = snd (shift_covered_range_right E h1 s)))"
    proof (elim disjE conjE)
      assume "\<not> fst r1" "r = (False, snd r1)"
      then show ?thesis using wf1 unfolding r1_def by auto
    next
      assume "fst r1" "\<not> v < current_lowest_value (snd r1)" "r = (True, snd r1)"
      then show ?thesis using wf1 fits by auto
    next
      assume "fst r1" "v < current_lowest_value (snd r1)" "f E (snd r1) v = Some r"
      with IH[of E "snd r1" v r] wf1 pre show ?thesis by blast
    qed
  qed
qed

lemma upper_loop_result:
  assumes "upper_loop E h v = Some r"
  shows "binary64_arithmetic E \<and> well_formed h \<and> current_highest_value h \<le> v \<and>
           v \<le> HIGHEST_VALUE_EVA \<longrightarrow>
           well_formed (snd r) \<and>
           (fst r \<longrightarrow> current_lowest_value (snd r) \<le> v \<and> v < current_highest_value (snd r)) \<and>
           (\<not> fst r \<longrightarrow> (\<exists>h1 s. \<not> fst (shift_covered_range_left E h1 s) \<and>
                                 snd r = snd (shift_covered_range_left E h1 s)))"
proof (rule upper_loop.raw_induct
    [where P = "\<lambda>E h v r. binary64_arithmetic E \<and> well_formed h \<and> current_highest_value h \<le> v \<and>
           v \<le> HIGHEST_VALUE_EVA \<longrightarrow>
           well_formed (snd r) \<and>
           (fst r \<longrightarrow> current_lowest_value (snd r) \<le> v \<and> v < current_highest_value (snd r)) \<and>
           (\<not> fst r \<longrightarrow> (\<exists>h1 s. \<not> fst (shift_covered_range_left E h1 s) \<and>
                                 snd r = snd (shift_covered_range_left E h1 s)))", OF _ assms])
  fix f :: "'a externals \<Rightarrow> 'a hdr_dbl_histogram \<Rightarrow> real \<Rightarrow> (bool \<times> 'a hdr_dbl_histogram) option"
  fix E h v r
  assume IH: "\<And>E h v r. f E h v = Some r \<Longrightarrow>
      binary64_arithmetic E \<and> well_formed h \<and> current_highest_value h \<le> v \<and>
           v \<le> HIGHEST_VALUE_EVA \<longrightarrow>
           well_formed (snd r) \<and>
           (fst r \<longrightarrow> current_lowest_value (snd r) \<le> v \<and> v < current_highest_value (snd r)) \<and>
           (\<not> fst r \<longrightarrow> (\<exists>h1 s. \<not> fst (shift_covered_range_left E h1 s) \<and>
                                 snd r = snd (shift_covered_range_left E h1 s)))"
  assume body: "(let r_val = fp_sub E (ceil (fp_div E (nextafter_DBL_MAX E v) (current_highest_value h))) 1;
          shift_amount = find_capped_containing_binary_order_of_magnitude E h r_val;
          r = shift_covered_range_left E h shift_amount
      in if \<not> fst r then Some (False, snd r)
         else if current_highest_value (snd r) \<le> v then f E (snd r) v
         else Some (True, snd r)) = Some r"
  show "binary64_arithmetic E \<and> well_formed h \<and> current_highest_value h \<le> v \<and>
           v \<le> HIGHEST_VALUE_EVA \<longrightarrow>
           well_formed (snd r) \<and>
           (fst r \<longrightarrow> current_lowest_value (snd r) \<le> v \<and> v < current_highest_value (snd r)) \<and>
           (\<not> fst r \<longrightarrow> (\<exists>h1 s. \<not> fst (shift_covered_range_left E h1 s) \<and>
                                 snd r = snd (shift_covered_range_left E h1 s)))"
  proof
    assume pre: "binary64_arithmetic E \<and> well_formed h \<and> current_highest_value h \<le> v \<and>
           v \<le> HIGHEST_VALUE_EVA"
    define s where "s = find_capped_containing_binary_order_of_magnitude E h
        (fp_sub E (ceil (fp_div E (nextafter_DBL_MAX E v) (current_highest_value h))) 1)"
    define r1 where "r1 = shift_covered_range_left E h s"
    have bin: "binary64_arithmetic E" and wf: "well_formed h" using pre by simp_all
    have pos: "0 < current_highest_value h" by (rule well_formed_highest_positive[OF wf])
    have "v < nextafter_DBL_MAX E v" using bin pre by (simp add: binary64_arithmetic_def)
    then have "current_highest_value h < nextafter_DBL_MAX E v" using pre by linarith
    with bin pos
    have d: "1 \<le> fp_sub E (ceil (fp_div E (nextafter_DBL_MAX E v) (current_highest_value h))) 1"
      by (rule r_val_ge_1)
    have ratio: "2 \<le> sint (highest_to_lowest_value_ratio h)"
      "sint (highest_to_lowest_value_ratio h) < 2 ^ 61"
      using wf by (simp_all add: well_formed_def)
    note s = shift_amount_bounds[OF bin ratio d, folded s_def]
    have wf1: "well_formed (snd r1)"
      unfolding r1_def using wf s(1,2) by (rule shift_left_well_formed)
    have fits: "current_lowest_value (snd r1) \<le> v" if "fst r1"
      unfolding r1_def using wf s that[unfolded r1_def] pre
      by (intro above_new_lower_bound) simp_all
    from body have cases: "(\<not> fst r1 \<and> r = (False, snd r1)) \<or>
        (fst r1 \<and> \<not> current_highest_value (snd r1) \<le> v \<and> r = (True, snd r1)) \<or>
        (fst r1 \<and> current_highest_value (snd r1) \<le> v \<and> f E (snd r1) v = Some r)"
      by (auto simp: Let_def r1_def s_def split: if_splits)
    then show "well_formed (snd r) \<and>
           (fst r \<longrightarrow> current_lowest_value (snd r) \<le> v \<and> v < current_highest_value (snd r)) \<and>
           (\<not> fst r \<longrightarrow> (\<exists>h1 s. \<not> fst (shift_covered_range_left E h1 s) \<and>
                                 snd r = snd (shift_covered_range_left E h1 s)))"
    proof (elim disjE conjE)
      assume "\<not> fst r1" "r = (False, snd r1)"
      then show ?thesis using wf1 unfolding r1_def by auto
    next
      assume "fst r1" "\<not> current_highest_value (snd r1) \<le> v" "r = (True, snd r1)"
      then show ?thesis using wf1 fits by auto
    next
      assume "fst r1" "current_highest_value (snd r1) \<le> v" "f E (snd r1) v = Some r"
      with IH[of E "snd r1" v r] wf1 pre show ?thesis by blast
    qed
  qed
qed

lemma adjust_well_formed:
  assumes "adjust_range_for_value E h v = Some r" "well_formed h" "binary64_arithmetic E"
  shows "well_formed (snd r)"
proof -
  have "v < 0 \<or> v = 0 \<or> 0 < v" by linarith
  then show ?thesis
    using assms lower_loop_result[of E h v r] upper_loop_result[of E h v r]
    by (auto simp: adjust_range_for_value_def split: if_splits)
qed

lemma record_converted_well_formed:
  "well_formed h \<Longrightarrow> well_formed (snd (record_converted E h v))"
  by (simp add: record_converted_def well_formed_def window_invariant_def Let_def)

lemma record_well_formed:
  assumes "hdr_dbl_record_value E h v = Some r" "well_formed h" "binary64_arithmetic E"
  shows "well_formed (snd r)"
proof (cases "v < current_lowest_value h \<or> current_highest_value h \<le> v")
  case False
  with assms show ?thesis
    using record_converted_well_formed[of h E v] by (auto simp: hdr_dbl_record_value_def)
next
  case True
  with assms(1) obtain a where a: "adjust_range_for_value E h v = Some a"
    and r: "r = (if \<not> fst a then (False, snd a) else record_converted E (snd a) v)"
    by (auto simp: hdr_dbl_record_value_def split: option.splits if_splits)
  from adjust_well_formed[OF a assms(2,3)] record_converted_well_formed[of "snd a" E v] r
  show ?thesis by (auto split: if_splits)
qed

lemma documented_ratio_less:
  assumes "documented_bounds ratio sf"
  shows "2 \<le> sint ratio" and "sint ratio < 2 ^ 61"
proof -
  from assms show r: "2 \<le> sint ratio" by (simp add: documented_bounds_def)
  have "(1::int) \<le> 10 ^ nat (sint sf)" by simp
  then have "sint ratio * 1 \<le> sint ratio * 10 ^ nat (sint sf)"
    using r by (intro mult_left_mono) simp_all
  moreover from assms have "sint ratio * 10 ^ nat (sint sf) < 2 ^ 61"
    by (simp add: documented_bounds_def)
  ultimately show "sint ratio < 2 ^ 61" by linarith
qed

text \<open>A call of \<^verbatim>\<open>hdr_dbl_init\<close> that returns a histogram had a ratio from 2 up to
  (excluding) \<open>2 ^ 61\<close>: the first check, and the defined shift.\<close>

lemma init_ratio_range:
  assumes "hdr_dbl_init E ratio sf = Some (Inr h)"
  shows "2 \<le> sint ratio" and "sint ratio < 2 ^ 61"
proof -
  from assms have c: "hdr_dbl_init_checks ratio sf = None"
    and d: "shift_defined (find_containing_binary_order_of_magnitude ratio + 1)"
    by (auto simp: hdr_dbl_init_def split: option.splits if_splits)
  from c show two: "2 \<le> sint ratio"
    by (auto simp: hdr_dbl_init_checks_def word_sless_alt split: if_splits)
  then have one: "1 \<le> sint ratio" by simp
  from d have k: "find_containing_binary_order_of_magnitude ratio \<le> 61"
    by (simp add: shift_defined_def)
  have "sint ratio < 2 ^ nat (find_containing_binary_order_of_magnitude ratio)"
    by (rule order_bounds(4)[OF one])
  also have "\<dots> \<le> 2 ^ 61" using k by (intro power_increasing) simp_all
  finally show "sint ratio < 2 ^ 61" .
qed

lemma init_well_formed:
  assumes "hdr_dbl_init E ratio sf = Some (Inr h)"
  shows "well_formed h"
proof -
  from init_invariant[OF assms]
  have i: "window_invariant h" "highest_to_lowest_value_ratio h = ratio" by simp_all
  from assms have "current_lowest_value h = pow 2 800"
    by (auto simp: hdr_dbl_init_def Let_def split: option.splits prod.splits if_splits)
  then have "0 < current_lowest_value h" by (simp add: pow_def)
  with i init_ratio_range[OF assms] show ?thesis by (simp add: well_formed_def)
qed

lemma reachable_well_formed:
  assumes "reachable E ratio sf h" "binary64_arithmetic E"
  shows "well_formed h"
  using assms
proof (induction rule: reachable.induct)
  case (constructed h)
  then show ?case by (intro init_well_formed)
next
  case (recorded h v b h')
  from record_well_formed[OF recorded.hyps(2)] recorded.IH recorded.prems show ?case by simp
qed

subsection \<open>Bounds on logarithms\<close>

lemma exp_3_le: "exp (3::real) \<le> 27"
proof -
  have "exp (3::real) = exp 1 ^ 3" using exp_of_nat_mult[of 3 "1::real"] by simp
  also have "\<dots> \<le> 3 ^ 3" by (intro power_mono exp_le) simp
  finally show ?thesis by simp
qed

lemma exp_4_ge: "(39::real) \<le> exp 4"
proof -
  have "(5/2::real) \<le> exp 1" using exp_lower_Taylor_quadratic[of "1::real"] by simp
  then have "(5/2::real) ^ 4 \<le> exp 1 ^ 4" by (intro power_mono) simp_all
  also have "\<dots> = exp (4::real)" using exp_of_nat_mult[of 4 "1::real"] by simp
  finally show ?thesis by (simp add: power_divide)
qed

lemma ln_2_le: "ln (2::real) \<le> 74 / 100"
proof -
  have "(2::real) \<le> exp (74 / 100)"
    using exp_lower_Taylor_quadratic[of "74 / 100 :: real"] by (simp add: power2_eq_square)
  then have "ln (2::real) \<le> ln (exp (74 / 100))" by (subst ln_le_cancel_iff) simp_all
  then show ?thesis by simp
qed

lemma ln_2_ge: "3 / 5 \<le> ln (2::real)"
proof -
  have "exp (3 / 5 :: real) ^ 5 = exp 3" using exp_of_nat_mult[of 5 "3 / 5 :: real"] by simp
  also have "\<dots> < 2 ^ 5" using exp_3_le by simp
  finally have "exp (3 / 5 :: real) < 2" by (rule power_less_imp_less_base) simp
  then have "ln (exp (3 / 5 :: real)) \<le> ln 2" by (subst ln_le_cancel_iff) simp_all
  then show ?thesis by simp
qed

lemma ceiling_ln_20: "\<lceil>ln (20 / ln (2::real))\<rceil> = 4"
proof (rule ceiling_unique)
  have pos: "0 < ln (2::real)" by simp
  have "exp (3::real) < 20 / (74 / 100)" using exp_3_le by simp
  also have "\<dots> \<le> 20 / ln 2" using ln_2_le pos by (intro divide_left_mono) simp_all
  finally have "ln (exp (3::real)) < ln (20 / ln 2)"
    using pos by (subst ln_less_cancel_iff) simp_all
  then show "real_of_int 4 - 1 < ln (20 / ln 2)" by simp
  have "20 / ln (2::real) \<le> 20 / (3 / 5)" using ln_2_ge pos by (intro divide_left_mono) simp_all
  also have "\<dots> \<le> exp 4" using exp_4_ge by simp
  finally have "ln (20 / ln (2::real)) \<le> ln (exp 4)"
    using pos by (subst ln_le_cancel_iff) simp_all
  then show "ln (20 / ln 2) \<le> real_of_int 4" by simp
qed

lemma ceiling_log2_20: "\<lceil>log 2 (20::real)\<rceil> = 5"
proof (rule ceiling_unique)
  have "(4::real) < log 2 20" by (simp add: less_log_iff)
  then show "real_of_int 5 - 1 < log 2 20" by simp
  have "log 2 (20::real) \<le> 5" by (simp add: log_le_iff)
  then show "log 2 20 \<le> real_of_int 5" by simp
qed

subsection \<open>The stand-in externals\<close>

lemma shl1_1: "int64_to_double (shl1 1) = 2"
  by (simp add: int64_to_double_def shl1_def)

lemma init_fresh: "hdr_dbl_init (test_externals a b) 2 3 = Some (Inr fresh_histogram)"
proof -
  have p: "power_c 10 3 = 1000" by (simp add: power_c_def power_loop.simps)
  have c: "hdr_dbl_init_checks 2 3 = None"
    by (simp add: hdr_dbl_init_checks_def p shl1_def word_sless_alt)
  have z: "clzll 2 = 62" by (simp add: clzll_def eval_nat_numeral)
  then have i: "calculate_internal_highest_to_lowest_value_ratio 2 = 8"
    by (simp add: calculate_internal_highest_to_lowest_value_ratio_def
        find_containing_binary_order_of_magnitude_def shl1_def)
  have d: "shift_defined (find_containing_binary_order_of_magnitude 2 + 1)"
    by (simp add: shift_defined_def find_containing_binary_order_of_magnitude_def z)
  show ?thesis
    by (simp add: hdr_dbl_init_def c d i test_externals_def fresh_histogram_def pow_def
        int64_to_double_def int32_to_double_def)
qed

lemma test_externals_binary64: "binary64_arithmetic (test_externals a b)"
proof -
  have q: "1 \<le> log 2 (real_of_int (sint w))" if "2 \<le> sint w" for w :: int64_t
  proof -
    have "(2::real) \<le> real_of_int (sint w)" using that by linarith
    then show ?thesis by (simp add: le_log_iff del: of_int_sint)
  qed
  show ?thesis
    using q
    by (simp add: binary64_arithmetic_def log2_quotient_def test_externals_def log_def
        del: of_int_sint)
qed

lemma reachable_fresh: "reachable (test_externals a b) 2 3 fresh_histogram"
  by (rule reachable.constructed) (rule init_fresh)

text \<open>One round of the lower loop: recording \<open>2 ^ 799\<close>, half the lower bound of the fresh
  histogram, asks a shift by one bit.\<close>

lemma clzll_1: "clzll 1 = 63"
  by (simp add: clzll_def eval_nat_numeral)

lemma capped_fresh_1:
  "find_capped_containing_binary_order_of_magnitude (test_externals a b) fresh_histogram 1 = 1"
  by (simp add: find_capped_containing_binary_order_of_magnitude_def test_externals_def
      fresh_histogram_def pow_def double_to_int64_def c_trunc_def
      find_containing_binary_order_of_magnitude_def clzll_1)

lemma lower_loop_one_round:
  assumes "fp_sub E (ceil (fp_div E (current_lowest_value h) v)) 1 = d"
    "find_capped_containing_binary_order_of_magnitude E h d = s"
    "shift_covered_range_right E h s = (ok, h1)"
    "\<not> (ok \<and> v < current_lowest_value h1)"
  shows "lower_loop E h v = Some (ok, h1)"
  by (subst lower_loop.simps) (use assms in \<open>auto simp: Let_def\<close>)

lemma adjust_fresh_below:
  "adjust_range_for_value (test_externals True b) fresh_histogram (2 ^ 799)
     = Some (True, scale_window (1 / 2) fresh_histogram)"
proof -
  have "lower_loop (test_externals True b) fresh_histogram (2 ^ 799)
          = Some (True, scale_window (1 / 2) fresh_histogram)"
  proof (rule lower_loop_one_round)
    show "fp_sub (test_externals True b)
             (ceil (fp_div (test_externals True b) (current_lowest_value fresh_histogram) (2 ^ 799))) 1 = 1"
      by (simp add: test_externals_def fresh_histogram_def ceil_def)
    show "find_capped_containing_binary_order_of_magnitude (test_externals True b) fresh_histogram 1 = 1"
      by (rule capped_fresh_1)
    show "shift_covered_range_right (test_externals True b) fresh_histogram 1
             = (True, scale_window (1 / 2) fresh_histogram)"
      by (simp add: shift_covered_range_right_def test_externals_def fresh_histogram_def shl1_1
          word_sless_alt)
    show "\<not> (True \<and> 2 ^ 799 < current_lowest_value (scale_window (1 / 2) fresh_histogram))"
      by (simp add: scale_window_def fresh_histogram_def)
  qed
  then show ?thesis
    by (simp add: adjust_range_for_value_def fresh_histogram_def)
qed

lemma adjust_fresh_refused:
  "adjust_range_for_value (test_externals False b) fresh_histogram (2 ^ 799)
     = Some (False, fresh_histogram)"
proof -
  have "lower_loop (test_externals False b) fresh_histogram (2 ^ 799)
          = Some (False, fresh_histogram)"
  proof (rule lower_loop_one_round)
    show "fp_sub (test_externals False b)
             (ceil (fp_div (test_externals False b) (current_lowest_value fresh_histogram) (2 ^ 799))) 1 = 1"
      by (simp add: test_externals_def fresh_histogram_def ceil_def)
    show "find_capped_containing_binary_order_of_magnitude (test_externals False b) fresh_histogram 1 = 1"
      by (rule capped_fresh_1)
    show "shift_covered_range_right (test_externals False b) fresh_histogram 1
             = (False, fresh_histogram)"
      by (simp add: shift_covered_range_right_def test_externals_def fresh_histogram_def shl1_1
          word_sless_alt)
    show "\<not> (False \<and> 2 ^ 799 < current_lowest_value fresh_histogram)"
      by simp
  qed
  then show ?thesis
    by (simp add: adjust_range_for_value_def fresh_histogram_def)
qed

section \<open>The claims\<close>

subsection \<open>C1: when a window shift is applied\<close>

text \<open>C1 says that a shift of the window is applied exactly when all recorded counts are in
  bucket 0 or the engine's lossless shift succeeds. The code tests
  \<^verbatim>\<open>total_count > hdr_count_at_index(0)\<close> first: with one count recorded outside bucket 0 and
  an engine that refuses to shift, both \<^verbatim>\<open>shift_covered_range_right\<close> and
  \<^verbatim>\<open>shift_covered_range_left\<close> move the window and report success, the engine's shift not
  having been called. The histogram is the one that recording \<open>2 ^ 801\<close> into the fresh
  histogram leaves.\<close>

theorem shift_applied_without_lossless_shift:
  "hdr_dbl_record_value (test_externals False True) fresh_histogram (2 ^ 801)
     = Some (True, one_count_histogram) \<and>
   \<not> hdr_count_at_index (test_externals False True) (values_h one_count_histogram) 0
       = total_count (values_h one_count_histogram) \<and>
   \<not> fst (hdr_shift_values_left (test_externals False True) (values_h one_count_histogram) 1) \<and>
   \<not> fst (hdr_shift_values_right (test_externals False True) (values_h one_count_histogram) 1) \<and>
   shift_covered_range_right (test_externals False True) one_count_histogram 1
     = (True, scale_window (1 / 2) one_count_histogram) \<and>
   shift_covered_range_left (test_externals False True) one_count_histogram 1
     = (True, scale_window 2 one_count_histogram)"
proof -
  have "double_to_int64 (2 ^ 801 * (1 / 2 ^ 790)) = 2048"
  proof -
    have "(2::real) ^ 801 * (1 / 2 ^ 790) = 2048" by simp
    then show ?thesis by (simp add: double_to_int64_def c_trunc_def)
  qed
  then have "hdr_dbl_record_value (test_externals False True) fresh_histogram (2 ^ 801)
     = Some (True, one_count_histogram)"
    by (simp add: hdr_dbl_record_value_def record_converted_def test_externals_def
        fresh_histogram_def one_count_histogram_def)
  then show ?thesis
    by (simp add: shift_covered_range_right_def shift_covered_range_left_def test_externals_def
      one_count_histogram_def fresh_histogram_def shl1_1 word_sless_alt)
qed

subsection \<open>C2: the conversion ratios\<close>

text \<open>C2 says that both conversion ratios are recomputed whenever the window moves.
  Construction derives them from \<open>current_lowest_value\<close> (\<open>2 ^ 800 / 1024\<close> and its
  reciprocal); after a successful shift of the fresh histogram by one bit the lower bound
  is \<open>2 ^ 799\<close> and both ratios are what construction left, no longer the lower bound
  divided by the half count of sub-buckets, 1024. (That the two ratios stay reciprocal in
  every reachable histogram is \<open>reachable_reciprocal\<close>.)\<close>

theorem conversion_ratios_stale_after_shift:
  "hdr_dbl_init (test_externals True True) 2 3 = Some (Inr fresh_histogram) \<and>
   fst (shift_covered_range_right (test_externals True True) fresh_histogram 1) \<and>
   current_lowest_value (snd (shift_covered_range_right (test_externals True True) fresh_histogram 1))
     = 2 ^ 799 \<and>
   int_to_dbl_conversion_ratio (snd (shift_covered_range_right (test_externals True True) fresh_histogram 1))
     = 2 ^ 800 / 1024 \<and>
   dbl_to_int_conversion_ratio (snd (shift_covered_range_right (test_externals True True) fresh_histogram 1))
     = 1 / (2 ^ 800 / 1024) \<and>
   int_to_dbl_conversion_ratio (snd (shift_covered_range_right (test_externals True True) fresh_histogram 1))
     \<noteq> current_lowest_value (snd (shift_covered_range_right (test_externals True True) fresh_histogram 1))
         / 1024"
proof -
  have "shift_covered_range_right (test_externals True True) fresh_histogram 1
          = (True, scale_window (1 / 2) fresh_histogram)"
    by (simp add: shift_covered_range_right_def test_externals_def fresh_histogram_def shl1_1
        word_sless_alt)
  then show ?thesis
    by (simp add: init_fresh scale_window_def fresh_histogram_def)
qed

subsection \<open>C3: the result of recording\<close>

text \<open>C3 says that \<^verbatim>\<open>hdr_dbl_record_value\<close> returns false when the engine's recording fails.
  For \<open>2 ^ 801\<close>, inside the window of the freshly constructed histogram, the integer value
  is 2048; the engine refuses it and the function returns true.\<close>

theorem record_reports_success_when_engine_fails:
  "hdr_dbl_init (test_externals True False) 2 3 = Some (Inr fresh_histogram) \<and>
   \<not> fst (hdr_record_value (test_externals True False) (values_h fresh_histogram) 2048) \<and>
   hdr_dbl_record_value (test_externals True False) fresh_histogram (2 ^ 801)
     = Some (True, fresh_histogram)"
proof -
  have "double_to_int64 (2 ^ 801 * (1 / 2 ^ 790)) = 2048"
  proof -
    have "(2::real) ^ 801 * (1 / 2 ^ 790) = 2048" by simp
    then show ?thesis by (simp add: double_to_int64_def c_trunc_def)
  qed
  then have "\<not> fst (hdr_record_value (test_externals True False) (values_h fresh_histogram) 2048) \<and>
      hdr_dbl_record_value (test_externals True False) fresh_histogram (2 ^ 801)
        = Some (True, fresh_histogram)"
    by (simp add: hdr_dbl_record_value_def record_converted_def test_externals_def
        fresh_histogram_def)
  with init_fresh[of True False] show ?thesis by blast
qed

subsection \<open>C4: the number of sub-buckets\<close>

text \<open>C4 says that the sub-bucket count is the smallest power of two that is at least
  \<open>2 * 10 ^ significant_figures\<close>. The code takes the natural logarithm of
  \<open>largest / ln 2\<close> instead of dividing the logarithm of \<open>largest\<close> by \<open>ln 2\<close>: for one
  significant figure it returns 16, below \<open>2 * 10\<close>, where the stated value is 32.\<close>

theorem sub_bucket_count_of_one_figure:
  "sint (number_of_sub_buckets 1) = 16 \<and> spec_sub_bucket_count 1 = 32"
proof -
  have "number_of_sub_buckets 1 = 16"
    by (simp add: number_of_sub_buckets_def Let_def pow_def ceil_def double_to_int64_def
        double_to_int32_def int32_to_double_def int64_to_double_def c_trunc_def ceiling_ln_20)
  moreover have "spec_sub_bucket_count 1 = 32"
    using ceiling_log2_20 by (simp add: spec_sub_bucket_count_def)
  ultimately show ?thesis by simp
qed

subsection \<open>C5: the internal ratio\<close>

text \<open>C5, as stated: for every accepted ratio the internal ratio is \<open>2 ^ (\<lfloor>log\<^sub>2 ratio\<rfloor> + 1)\<close>,
  the smallest power of two strictly greater than the ratio. The parameters (2, 1) pass the
  checks of construction, and there the code computes 8 where the stated formula gives 4.\<close>

theorem internal_ratio_counterexample:
  "hdr_dbl_init_checks 2 1 = None \<and>
   sint (calculate_internal_highest_to_lowest_value_ratio 2)
     \<noteq> spec_internal_highest_to_lowest_value_ratio (sint (2 :: 64 word))"
proof -
  have "power_c 10 1 = 10" by (simp add: power_c_def power_loop.simps)
  then have "hdr_dbl_init_checks 2 1 = None"
    by (simp add: hdr_dbl_init_checks_def shl1_def word_sless_alt)
  moreover have "clzll 2 = 62"
    by (simp add: clzll_def eval_nat_numeral)
  then have "calculate_internal_highest_to_lowest_value_ratio 2 = 8"
    by (simp add: calculate_internal_highest_to_lowest_value_ratio_def
        find_containing_binary_order_of_magnitude_def shl1_def)
  moreover have "spec_internal_highest_to_lowest_value_ratio (sint (2 :: 64 word)) = 4"
    by (simp add: spec_internal_highest_to_lowest_value_ratio_def)
  ultimately show ?thesis by simp
qed

text \<open>C5, amended: for every ratio from 2 up to (excluding) \<open>2 ^ 61\<close> the internal ratio is
  \<open>2 ^ (\<lfloor>log\<^sub>2 ratio\<rfloor> + 2)\<close>, twice the smallest power of two strictly greater than the
  ratio: the containing binary order of magnitude is \<open>\<lfloor>log\<^sub>2 ratio\<rfloor> + 1\<close> and the code shifts
  by one more.\<close>

theorem internal_ratio_twice_next_power:
  assumes "2 \<le> sint r" "sint r < 2 ^ 61"
  shows "sint (calculate_internal_highest_to_lowest_value_ratio r) =
           2 ^ nat (\<lfloor>log 2 (real_of_int (sint r))\<rfloor> + 2)"
proof -
  have "1 \<le> sint r" using assms(1) by simp
  then have "\<lfloor>log 2 (real_of_int (sint r))\<rfloor> + 2 = find_containing_binary_order_of_magnitude r + 1"
    using floor_log2_order[of r] by linarith
  then show ?thesis using internal_ratio_value(1)[OF assms] by simp
qed

text \<open>At ratio 1000 (\<open>\<lfloor>log\<^sub>2 1000\<rfloor> = 9\<close>) the internal ratio is \<open>2 ^ 11\<close>.\<close>

theorem internal_ratio_twice_next_power_witness:
  "2 \<le> sint (1000 :: 64 word) \<and> sint (1000 :: 64 word) < 2 ^ 61 \<and>
   sint (calculate_internal_highest_to_lowest_value_ratio 1000) = 2048"
proof -
  have h: "2 \<le> sint (1000 :: 64 word)" "sint (1000 :: 64 word) < 2 ^ 61" by simp_all
  have "\<lfloor>log 2 (real_of_int (sint (1000 :: 64 word)))\<rfloor> = 9"
    by (simp add: floor_log_eq_powr_iff)
  with internal_ratio_twice_next_power[OF h] h show ?thesis by simp
qed

subsection \<open>C6: the capped order of magnitude\<close>

text \<open>C6, as stated: the cap is the internal ratio, and above the cap the result is the
  binary exponent of the internal ratio. In the fresh histogram the requested ratio is 2 and
  the internal ratio 8; for \<open>d = 3\<close> the stated rule gives the order of magnitude of 3,
  which is 2, and the code, comparing with the requested ratio, gives 1 (the conversion of 2
  and the quotient \<^verbatim>\<open>log(2) / log(2)\<close> are exact in binary64).\<close>

theorem capped_order_counterexample:
  "find_capped_containing_binary_order_of_magnitude (test_externals True True) fresh_histogram 3
     \<noteq> spec_capped_binary_order_of_magnitude fresh_histogram 3"
proof -
  have "find_capped_containing_binary_order_of_magnitude (test_externals True True)
          fresh_histogram 3 = 1"
    by (simp add: find_capped_containing_binary_order_of_magnitude_def log2_quotient_def
        test_externals_def fresh_histogram_def c_trunc_def)
  moreover have "clzll 2 = 62" by (simp add: clzll_def eval_nat_numeral)
  then have i: "calculate_internal_highest_to_lowest_value_ratio 2 = 8"
    by (simp add: calculate_internal_highest_to_lowest_value_ratio_def
        find_containing_binary_order_of_magnitude_def shl1_def)
  have "clzll 3 = 62" by (simp add: clzll_def eval_nat_numeral)
  then have "spec_capped_binary_order_of_magnitude fresh_histogram 3 = 2"
    by (simp add: spec_capped_binary_order_of_magnitude_def fresh_histogram_def i
        int64_to_double_def double_to_int64_def c_trunc_def
        find_containing_binary_order_of_magnitude_def)
  ultimately show ?thesis by simp
qed

text \<open>C6, amended: for every histogram whose requested ratio is at least 2 and every
  \<open>d \<ge> 1\<close>, the result is, when \<open>d\<close> exceeds the requested ratio
  \<open>highest_to_lowest_value_ratio\<close> (converted to \<^verbatim>\<open>double\<close>), the truncation of the quotient
  \<^verbatim>\<open>log(ratio) / log(2)\<close> as binary64 computes it, which is
  \<open>\<lfloor>log\<^sub>2 highest_to_lowest_value_ratio\<rfloor>\<close> when the quotient is exact and differs from it by at
  most one otherwise (it is one more where rounding carries the quotient to the next
  integer, as at the ratio \<open>2 ^ 48 - 1\<close>); otherwise 50 when \<open>d > 2 ^ 50\<close>; otherwise the
  binary order of magnitude of \<open>d\<close>, \<open>\<lfloor>log\<^sub>2 d\<rfloor> + 1\<close>, the position of the highest set bit of
  its integer part.\<close>

theorem capped_order_of_requested_ratio:
  assumes "binary64_arithmetic E" "2 \<le> sint (highest_to_lowest_value_ratio h)" "1 \<le> d"
  shows "find_capped_containing_binary_order_of_magnitude E h d =
           (if d > fp_of_int64 E (highest_to_lowest_value_ratio h)
            then c_trunc (log2_quotient E (highest_to_lowest_value_ratio h))
            else if d > 2 ^ 50 then 50
            else \<lfloor>log 2 d\<rfloor> + 1) \<and>
         \<bar>c_trunc (log2_quotient E (highest_to_lowest_value_ratio h))
            - \<lfloor>log 2 (real_of_int (sint (highest_to_lowest_value_ratio h)))\<rfloor>\<bar> \<le> 1 \<and>
         (log2_quotient E (highest_to_lowest_value_ratio h)
            = log 2 (real_of_int (sint (highest_to_lowest_value_ratio h))) \<longrightarrow>
          c_trunc (log2_quotient E (highest_to_lowest_value_ratio h))
            = \<lfloor>log 2 (real_of_int (sint (highest_to_lowest_value_ratio h)))\<rfloor>)"
proof -
  let ?w = "highest_to_lowest_value_ratio h"
  note q = log2_quotient_bracket[OF assms(1,2)]
  have "1 \<le> log2_quotient E ?w"
    using assms(1,2) by (simp add: binary64_arithmetic_def del: of_int_sint)
  then have "c_trunc (log2_quotient E ?w) = \<lfloor>log2_quotient E ?w\<rfloor>"
    by (intro c_trunc_nonneg) simp
  then have exact: "c_trunc (log2_quotient E ?w) = \<lfloor>log 2 (real_of_int (sint ?w))\<rfloor>"
    if "log2_quotient E ?w = log 2 (real_of_int (sint ?w))"
    using that by simp
  from q(2,3) have "\<bar>c_trunc (log2_quotient E ?w) - \<lfloor>log 2 (real_of_int (sint ?w))\<rfloor>\<bar> \<le> 1"
    by linarith
  with capped_value[OF assms(3), of E h] exact show ?thesis by blast
qed

text \<open>In the fresh histogram, over exact arithmetic, \<open>d = 3\<close> exceeds the requested ratio 2:
  the result is 1, which is \<open>\<lfloor>log\<^sub>2 2\<rfloor>\<close>.\<close>

theorem capped_order_of_requested_ratio_witness:
  "binary64_arithmetic (test_externals True True) \<and>
   2 \<le> sint (highest_to_lowest_value_ratio fresh_histogram) \<and> (1::real) \<le> 3 \<and>
   log2_quotient (test_externals True True) (highest_to_lowest_value_ratio fresh_histogram)
     = log 2 (real_of_int (sint (highest_to_lowest_value_ratio fresh_histogram))) \<and>
   find_capped_containing_binary_order_of_magnitude (test_externals True True) fresh_histogram 3 = 1"
proof -
  have b: "binary64_arithmetic (test_externals True True)" by (rule test_externals_binary64)
  have h: "2 \<le> sint (highest_to_lowest_value_ratio fresh_histogram)" "(1::real) \<le> 3"
    by (simp_all add: fresh_histogram_def)
  have e: "log2_quotient (test_externals True True) (highest_to_lowest_value_ratio fresh_histogram)
     = log 2 (real_of_int (sint (highest_to_lowest_value_ratio fresh_histogram)))"
    by (simp add: log2_quotient_def test_externals_def fresh_histogram_def)
  have "find_capped_containing_binary_order_of_magnitude (test_externals True True)
          fresh_histogram 3 = 1"
    using capped_order_of_requested_ratio[OF b h] e
    by (simp add: fresh_histogram_def test_externals_def c_trunc_def log2_quotient_def)
  with b h e show ?thesis by blast
qed

subsection \<open>C7: the checks of construction\<close>

text \<open>C7 says that construction is refused whenever
  \<open>ratio * 10 ^ significant_figures \<ge> 2 ^ 61\<close> over the mathematical integers. \<^verbatim>\<open>power\<close>
  accumulates in a 32-bit \<^verbatim>\<open>int\<close>: \<open>10 ^ 10\<close> wraps to 1410065408, and the parameters
  (300000000, 10), whose true product exceeds \<open>2 ^ 61\<close>, pass all three checks; over
  externals that accept what they are asked, construction returns a histogram.\<close>

theorem init_checks_accept_overflowing_power:
  "hdr_dbl_init_checks 300000000 10 = None \<and>
   (2::int) ^ 61 \<le> sint (300000000 :: 64 word) * 10 ^ nat (sint (10 :: 32 word)) \<and>
   (\<exists>h. hdr_dbl_init (test_externals True True) 300000000 10 = Some (Inr h))"
proof -
  have "power_c 10 10 = 1410065408" by (simp add: power_c_def power_loop.simps)
  then have c: "hdr_dbl_init_checks 300000000 10 = None"
    by (simp add: hdr_dbl_init_checks_def shl1_def word_sless_alt)
  have "clzll 300000000 = 35" by (simp add: clzll_def eval_nat_numeral)
  then have d: "shift_defined (find_containing_binary_order_of_magnitude 300000000 + 1)"
    by (simp add: shift_defined_def find_containing_binary_order_of_magnitude_def)
  have "\<exists>h. hdr_dbl_init (test_externals True True) 300000000 10 = Some (Inr h)"
    using c d by (simp add: hdr_dbl_init_def test_externals_def Let_def)
  with c show ?thesis by simp
qed

subsection \<open>C8: the range adjustment terminates\<close>

text \<open>C8: for every histogram reached by construction and recording and every value \<open>v\<close>,
  \<^verbatim>\<open>adjust_range_for_value\<close> returns, and so does each of its loops, entered as the code
  enters it (the lower loop with \<open>0 < v\<close> below the window, the upper loop with \<open>v\<close> at or
  above the upper bound and not above \<^verbatim>\<open>HIGHEST_VALUE_EVA\<close>): finitely many rounds are made. When the answer is true, \<open>v\<close> is 0
  or inside the window that is returned; when it is false, \<open>v\<close> is negative or above the
  ceiling constant and nothing has changed, or the histogram returned is the one a refused
  shift left behind. Every round shifts by at least one bit and by no more than the
  internal ratio covers, so the lower bound at least halves, or the upper bound at least
  doubles, without passing \<open>v\<close>.\<close>

theorem range_adjustment_terminates:
  assumes "reachable E ratio sf h" "binary64_arithmetic E"
  shows "(\<exists>b h'. adjust_range_for_value E h v = Some (b, h') \<and>
            (b \<longrightarrow> v = 0 \<or> current_lowest_value h' \<le> v \<and> v < current_highest_value h') \<and>
            (\<not> b \<longrightarrow> (v < 0 \<and> h' = h) \<or> (HIGHEST_VALUE_EVA < v \<and> h' = h) \<or>
               (\<exists>h1 s. \<not> fst (shift_covered_range_right E h1 s) \<and>
                       h' = snd (shift_covered_range_right E h1 s)) \<or>
               (\<exists>h1 s. \<not> fst (shift_covered_range_left E h1 s) \<and>
                       h' = snd (shift_covered_range_left E h1 s)))) \<and>
         (0 < v \<and> v < current_lowest_value h \<longrightarrow>
            (\<exists>b h'. lower_loop E h v = Some (b, h') \<and>
               (b \<longrightarrow> current_lowest_value h' \<le> v \<and> v < current_highest_value h'))) \<and>
         (current_highest_value h \<le> v \<and> v \<le> HIGHEST_VALUE_EVA \<longrightarrow>
            (\<exists>b h'. upper_loop E h v = Some (b, h') \<and>
               (b \<longrightarrow> current_lowest_value h' \<le> v \<and> v < current_highest_value h')))"
proof -
  have wf: "well_formed h" using assms by (rule reachable_well_formed)
  then have ratio: "2 \<le> sint (highest_to_lowest_value_ratio h)"
    "sint (highest_to_lowest_value_ratio h) < 2 ^ 61"
    by (simp_all add: well_formed_def)
  have lower: "\<exists>b h'. lower_loop E h v = Some (b, h') \<and>
      (b \<longrightarrow> current_lowest_value h' \<le> v \<and> v < current_highest_value h') \<and>
      (\<not> b \<longrightarrow> (\<exists>h1 s. \<not> fst (shift_covered_range_right E h1 s) \<and>
                       h' = snd (shift_covered_range_right E h1 s)))"
    if "0 < v \<and> v < current_lowest_value h"
  proof -
    from that obtain n where "current_lowest_value h < v * 2 ^ n"
      using ex_power_bound by blast
    then have "current_lowest_value h \<le> v * 2 ^ n" by simp
    with assms(2) ratio that obtain r where r: "lower_loop E h v = Some r"
      using lower_loop_returns[of E h v n] by blast
    from lower_loop_result[OF r] assms(2) wf that r show ?thesis
      by (cases r) auto
  qed
  have upper: "\<exists>b h'. upper_loop E h v = Some (b, h') \<and>
      (b \<longrightarrow> current_lowest_value h' \<le> v \<and> v < current_highest_value h') \<and>
      (\<not> b \<longrightarrow> (\<exists>h1 s. \<not> fst (shift_covered_range_left E h1 s) \<and>
                       h' = snd (shift_covered_range_left E h1 s)))"
    if "current_highest_value h \<le> v \<and> v \<le> HIGHEST_VALUE_EVA"
  proof -
    have pos: "0 < current_highest_value h" by (rule well_formed_highest_positive[OF wf])
    then obtain n where "v < current_highest_value h * 2 ^ n"
      using ex_power_bound by blast
    with assms(2) ratio pos that obtain r where r: "upper_loop E h v = Some r"
      using upper_loop_returns[of E h v n] by blast
    from upper_loop_result[OF r] assms(2) wf that r show ?thesis
      by (cases r) auto
  qed
  have adjust: "\<exists>b h'. adjust_range_for_value E h v = Some (b, h') \<and>
            (b \<longrightarrow> v = 0 \<or> current_lowest_value h' \<le> v \<and> v < current_highest_value h') \<and>
            (\<not> b \<longrightarrow> (v < 0 \<and> h' = h) \<or> (HIGHEST_VALUE_EVA < v \<and> h' = h) \<or>
               (\<exists>h1 s. \<not> fst (shift_covered_range_right E h1 s) \<and>
                       h' = snd (shift_covered_range_right E h1 s)) \<or>
               (\<exists>h1 s. \<not> fst (shift_covered_range_left E h1 s) \<and>
                       h' = snd (shift_covered_range_left E h1 s)))"
  proof (cases "v = 0 \<or> v < 0")
    case True
    then show ?thesis
      using wf by (auto simp: adjust_range_for_value_def well_formed_def)
  next
    case False
    then have vpos: "0 < v" by linarith
    show ?thesis
    proof (cases "v < current_lowest_value h")
      case True
      with vpos lower obtain b h' where "lower_loop E h v = Some (b, h')"
        "b \<longrightarrow> current_lowest_value h' \<le> v \<and> v < current_highest_value h'"
        "\<not> b \<longrightarrow> (\<exists>h1 s. \<not> fst (shift_covered_range_right E h1 s) \<and>
                       h' = snd (shift_covered_range_right E h1 s))"
        by blast
      with True vpos show ?thesis
        by (auto simp: adjust_range_for_value_def)
    next
      case below: False
      show ?thesis
      proof (cases "current_highest_value h \<le> v")
        case False
        with below vpos show ?thesis by (auto simp: adjust_range_for_value_def)
      next
        case True
        show ?thesis
        proof (cases "HIGHEST_VALUE_EVA < v")
          case True
          with below vpos \<open>current_highest_value h \<le> v\<close> show ?thesis
            by (auto simp: adjust_range_for_value_def)
        next
          case False
          from False True have "current_highest_value h \<le> v \<and> v \<le> HIGHEST_VALUE_EVA" by simp
          from upper[OF this] obtain b h' where "upper_loop E h v = Some (b, h')"
            "b \<longrightarrow> current_lowest_value h' \<le> v \<and> v < current_highest_value h'"
            "\<not> b \<longrightarrow> (\<exists>h1 s. \<not> fst (shift_covered_range_left E h1 s) \<and>
                       h' = snd (shift_covered_range_left E h1 s))"
            by blast
          with False below vpos True show ?thesis
            by (auto simp: adjust_range_for_value_def)
        qed
      qed
    qed
  qed
  from adjust lower upper show ?thesis by blast
qed

text \<open>The fresh histogram and the value \<open>2 ^ 799\<close>, half its lower bound. Over an engine that
  shifts, one round moves the window to \<open>[2 ^ 799, 2 ^ 802)\<close> and the answer is true; over
  an engine that refuses, the answer is false and the histogram is what the refused shift
  left. The value \<open>2 ^ 803\<close>, the upper bound, enters the upper loop; \<open>-5\<close> is refused by
  its sign.\<close>

theorem range_adjustment_terminates_witness:
  "reachable (test_externals True True) 2 3 fresh_histogram \<and>
   binary64_arithmetic (test_externals True True) \<and>
   adjust_range_for_value (test_externals True True) fresh_histogram (2 ^ 799)
     = Some (True, scale_window (1 / 2) fresh_histogram) \<and>
   current_lowest_value (scale_window (1 / 2) fresh_histogram) \<le> 2 ^ 799 \<and>
   2 ^ 799 < current_highest_value (scale_window (1 / 2) fresh_histogram) \<and>
   (0::real) < 2 ^ 799 \<and> 2 ^ 799 < current_lowest_value fresh_histogram \<and>
   (\<exists>b h'. lower_loop (test_externals True True) fresh_histogram (2 ^ 799) = Some (b, h') \<and>
      (b \<longrightarrow> current_lowest_value h' \<le> 2 ^ 799 \<and> 2 ^ 799 < current_highest_value h')) \<and>
   current_highest_value fresh_histogram \<le> 2 ^ 803 \<and> 2 ^ 803 \<le> HIGHEST_VALUE_EVA \<and>
   (\<exists>b h'. upper_loop (test_externals True True) fresh_histogram (2 ^ 803) = Some (b, h') \<and>
      (b \<longrightarrow> current_lowest_value h' \<le> 2 ^ 803 \<and> 2 ^ 803 < current_highest_value h')) \<and>
   reachable (test_externals False True) 2 3 fresh_histogram \<and>
   binary64_arithmetic (test_externals False True) \<and>
   adjust_range_for_value (test_externals False True) fresh_histogram (2 ^ 799)
     = Some (False, fresh_histogram) \<and>
   \<not> fst (shift_covered_range_right (test_externals False True) fresh_histogram 1) \<and>
   fresh_histogram = snd (shift_covered_range_right (test_externals False True) fresh_histogram 1) \<and>
   (\<exists>b h'. adjust_range_for_value (test_externals False True) fresh_histogram (- 5) = Some (b, h')
      \<and> \<not> b \<and> h' = fresh_histogram)"
proof -
  note r = reachable_fresh[of True True] and b = test_externals_binary64[of True True]
  note r' = reachable_fresh[of False True] and b' = test_externals_binary64[of False True]
  note t = range_adjustment_terminates[OF r b]
  have w1: "current_lowest_value (scale_window (1 / 2) fresh_histogram) \<le> 2 ^ 799"
    and w2: "2 ^ 799 < current_highest_value (scale_window (1 / 2) fresh_histogram)"
    and w3: "(0::real) < 2 ^ 799"
    and w4: "2 ^ 799 < current_lowest_value fresh_histogram"
    and w5: "current_highest_value fresh_histogram \<le> 2 ^ 803"
    by (simp_all add: scale_window_def fresh_histogram_def)
  have w6: "2 ^ 803 \<le> HIGHEST_VALUE_EVA" by (simp add: HIGHEST_VALUE_EVA_def)
  have l: "\<exists>b h'. lower_loop (test_externals True True) fresh_histogram (2 ^ 799) = Some (b, h') \<and>
      (b \<longrightarrow> current_lowest_value h' \<le> 2 ^ 799 \<and> 2 ^ 799 < current_highest_value h')"
    by (rule t[of "2 ^ 799", THEN conjunct2, THEN conjunct1, THEN mp]) (rule conjI[OF w3 w4])
  have u: "\<exists>b h'. upper_loop (test_externals True True) fresh_histogram (2 ^ 803) = Some (b, h') \<and>
      (b \<longrightarrow> current_lowest_value h' \<le> 2 ^ 803 \<and> 2 ^ 803 < current_highest_value h')"
    by (rule t[of "2 ^ 803", THEN conjunct2, THEN conjunct2, THEN mp])
      (rule conjI[OF w5 w6])
  have s1: "\<not> fst (shift_covered_range_right (test_externals False True) fresh_histogram 1)"
    and s2: "fresh_histogram
      = snd (shift_covered_range_right (test_externals False True) fresh_histogram 1)"
    by (simp_all add: shift_covered_range_right_def test_externals_def fresh_histogram_def shl1_1
        word_sless_alt)
  have n: "\<exists>b h'. adjust_range_for_value (test_externals False True) fresh_histogram (- 5)
      = Some (b, h') \<and> \<not> b \<and> h' = fresh_histogram"
  proof -
    have "- 5 < current_lowest_value fresh_histogram" by (simp add: fresh_histogram_def)
    then have "adjust_range_for_value (test_externals False True) fresh_histogram (- 5)
        = Some (False, fresh_histogram)"
      by (simp add: adjust_range_for_value_def)
    with range_adjustment_terminates[OF r' b', of "- 5", THEN conjunct1] show ?thesis
      by auto
  qed
  note a1 = adjust_fresh_below[of True] and a2 = adjust_fresh_refused[of True]
  show ?thesis
    by (intro conjI r b r' b' a1 a2 w1 w2 w3 w4 w5 w6 l u s1 s2 n)
qed

subsection \<open>C9: the window invariant\<close>

text \<open>C9: in every histogram reached by construction and recording, the upper bound of the
  window is the lower bound times the internal ratio of the requested ratio, which the
  histogram stores unchanged; a shift of the window in either direction, by any amount and
  whether applied or refused, keeps the relation; and for parameters inside the documented
  bounds the internal ratio is a power of two that is at least the requested ratio.\<close>

theorem window_invariant_reachable:
  assumes "reachable E ratio sf h"
  shows "current_highest_value h =
           current_lowest_value h *
             int64_to_double (calculate_internal_highest_to_lowest_value_ratio ratio) \<and>
         highest_to_lowest_value_ratio h = ratio \<and>
         window_invariant (snd (shift_covered_range_right E h s)) \<and>
         highest_to_lowest_value_ratio (snd (shift_covered_range_right E h s)) = ratio \<and>
         window_invariant (snd (shift_covered_range_left E h s)) \<and>
         highest_to_lowest_value_ratio (snd (shift_covered_range_left E h s)) = ratio \<and>
         (documented_bounds ratio sf \<longrightarrow>
           (\<exists>k. sint (calculate_internal_highest_to_lowest_value_ratio ratio) = 2 ^ k \<and>
                sint ratio \<le> 2 ^ k))"
proof -
  from reachable_invariant[OF assms]
  have i: "window_invariant h" "highest_to_lowest_value_ratio h = ratio" by simp_all
  have "\<exists>k. sint (calculate_internal_highest_to_lowest_value_ratio ratio) = 2 ^ k \<and>
            sint ratio \<le> 2 ^ k" if "documented_bounds ratio sf"
  proof -
    note b = documented_ratio_less[OF that]
    let ?k = "find_containing_binary_order_of_magnitude ratio"
    have one: "1 \<le> sint ratio" using b(1) by simp
    have "sint ratio < 2 ^ nat ?k" by (rule order_bounds(4)[OF one])
    also have "(2::int) ^ nat ?k \<le> 2 ^ nat (?k + 1)" by (intro power_increasing) simp_all
    finally have "sint ratio \<le> 2 ^ nat (?k + 1)" by simp
    with internal_ratio_value(1)[OF b] show ?thesis by blast
  qed
  with i shift_right_invariant[OF i(1), of E s] shift_left_invariant[OF i(1), of E s]
  show ?thesis
    by (simp add: window_invariant_def shift_right_fields shift_left_fields)
qed

text \<open>The fresh histogram, with requested ratio 2 and internal ratio 8.\<close>

theorem window_invariant_reachable_witness:
  "reachable (test_externals True True) 2 3 fresh_histogram \<and>
   documented_bounds 2 3 \<and>
   current_highest_value fresh_histogram = current_lowest_value fresh_histogram * 8 \<and>
   (\<exists>k. sint (calculate_internal_highest_to_lowest_value_ratio 2) = 2 ^ k \<and>
        sint (2 :: 64 word) \<le> 2 ^ k)"
proof -
  have r: "reachable (test_externals True True) 2 3 fresh_histogram"
    by (rule reachable.constructed) (rule init_fresh)
  have d: "documented_bounds 2 3" by (simp add: documented_bounds_def)
  have "current_highest_value fresh_histogram = current_lowest_value fresh_histogram * 8"
    by (simp add: fresh_histogram_def)
  with window_invariant_reachable[OF r, of 1] r d show ?thesis by blast
qed

subsection \<open>C10: negative values and zero\<close>

text \<open>C10: in every state whose window does not start below zero (every well-formed state),
  recording a negative value returns false and leaves the whole histogram, so also the
  total count, as it was, whatever the engine would answer: the refusal comes from the
  sign test alone. Recording 0.0 returns true in every state and changes nothing but what
  the engine's recording of the integer 0 changes: the window is not moved and no shift is
  asked of the engine.\<close>

theorem negative_refused_zero_recorded:
  "(0 \<le> current_lowest_value h \<and> v < 0 \<longrightarrow> hdr_dbl_record_value E h v = Some (False, h)) \<and>
   hdr_dbl_record_value E h 0
     = Some (True, h\<lparr>values_h := snd (hdr_record_value E (values_h h) 0)\<rparr>)"
  by (simp add: hdr_dbl_record_value_def adjust_range_for_value_def record_converted_def
      double_to_int64_def c_trunc_def)

text \<open>Recording \<open>-5\<close> into the fresh histogram.\<close>

theorem negative_refused_zero_recorded_witness:
  "0 \<le> current_lowest_value fresh_histogram \<and> (-5 :: real) < 0 \<and>
   hdr_dbl_record_value (test_externals True True) fresh_histogram (-5) = Some (False, fresh_histogram) \<and>
   total_count (values_h fresh_histogram) = 0"
  using negative_refused_zero_recorded [of fresh_histogram "-5" "test_externals True True"]
  by (simp add: fresh_histogram_def)

end
